theory Spec2Isabelle
  imports
    Main
    "HOL-Library.List_Lexorder"
    "HOL-Library.Char_ord"
    "HOL-Library.AList"
    "HOL-Library.Multiset"
begin

section \<open>Deep Dependency Graph: the data model\<close>

text \<open>
  The development follows \<^verbatim>\<open>model/ddg/PathElem.tsx\<close>, \<^verbatim>\<open>model/ddg/types.tsx\<close>,
  \<^verbatim>\<open>model/ddg/transformDdgData.tsx\<close> and the \<^verbatim>\<open>GraphModel\<close> class.

  JavaScript strings are modelled by \<^typ>\<open>string\<close>: a list of characters compared code unit
  by code unit, which is the order of \<^verbatim>\<open><\<close> and \<^verbatim>\<open>>\<close> on JavaScript strings (here with the
  256 characters of \<^typ>\<open>char\<close>). JavaScript numbers only hold array offsets, counters and their
  differences here, so they are \<^typ>\<open>nat\<close> and \<^typ>\<open>int\<close>.
\<close>

text \<open>Every \<^verbatim>\<open>throw new Error(...)\<close> of the source is one constructor.\<close>

datatype error =
    MissingFocalNode \<comment> \<open>\<^verbatim>\<open>A payload path lacked the focalNode\<close>\<close>
  | VisibilityIndexAlreadySet \<comment> \<open>\<^verbatim>\<open>Visibility Index cannot be changed once set\<close>\<close>
  | VisibilityIndexUnset \<comment> \<open>\<^verbatim>\<open>Visibility Index was never set for this PathElem\<close>\<close>
  | DisconnectedPathElem \<comment> \<open>\<^verbatim>\<open>Non-focal pathElem cannot be connected to graph\<close>\<close>
  | VertexWithoutPathElems \<comment> \<open>\<^verbatim>\<open>Vertex exists without pathElems\<close>\<close>
  | PathElemNotInModel \<comment> \<open>\<^verbatim>\<open>PathElem wasn't present in initial model\<close>\<close>
  | MalformedVisibilityToken \<comment> \<open>a visibility token that \<^verbatim>\<open>decode\<close> rejects\<close>

record TDdgPayloadEntry =
  operation :: string
  service :: string

type_synonym TDdgPayload = "TDdgPayloadEntry list list"

text \<open>
  A \<^verbatim>\<open>PathElem\<close> object is shared: its path's \<^verbatim>\<open>members\<close>, its operation's \<^verbatim>\<open>pathElems\<close>,
  \<^verbatim>\<open>distanceToPathElems\<close> and \<^verbatim>\<open>visIdxToPathElem\<close> all hold the same object, and the
  \<^verbatim>\<open>Map\<close>s of \<^verbatim>\<open>GraphModel\<close> are keyed by its identity. The record below holds the three fields
  the constructor assigns and never changes; \<^verbatim>\<open>memberOf\<close> is a reference to the owning path,
  the position of that path in the arena of paths, and \<^verbatim>\<open>operation\<close> is a reference to the
  operation object, the service name and the operation name under which the registry of
  services holds it. One path offset gets one \<^verbatim>\<open>PathElem\<close>, so the record value is the
  object's identity. The one field that is written later, \<^verbatim>\<open>_visibilityIdx\<close>, lives in a
  store from \<^verbatim>\<open>PathElem\<close>s to indices, where \<open>None\<close> is \<^verbatim>\<open>undefined\<close>.
\<close>

record PathElem =
  memberIdx :: nat
  memberOf :: nat
  operation :: "string \<times> string"

record TDdgPath =
  focalIdx :: int
  members :: "PathElem list"

type_synonym visibilityIdx_store = "PathElem \<rightharpoonup> nat"

text \<open>
  Dereferencing \<^verbatim>\<open>memberOf\<close> in an arena of paths. The transform only creates references
  into the arena; a reference outside it reads as the stand-in path
  \<^verbatim>\<open>{ focalIdx: -1, members: [] }\<close> with which the source creates every path.
\<close>

definition pathOf :: "TDdgPath list \<Rightarrow> PathElem \<Rightarrow> TDdgPath" where
  "pathOf heap pe =
     (if memberOf pe < length heap then heap ! memberOf pe
      else \<lparr>focalIdx = - 1, members = []\<rparr>)"

text \<open>\<^verbatim>\<open>get distance() { return this.memberIdx - this.memberOf.focalIdx; }\<close>\<close>

definition distance :: "TDdgPath list \<Rightarrow> PathElem \<Rightarrow> int" where
  "distance heap pe = int (memberIdx pe) - focalIdx (pathOf heap pe)"

text \<open>
  The setter and the getter of \<^verbatim>\<open>visibilityIdx\<close>. The setter returns the store it leaves
  behind also when it throws.
\<close>

definition set_visibilityIdx ::
  "PathElem \<Rightarrow> nat \<Rightarrow> visibilityIdx_store \<Rightarrow> (error + unit) \<times> visibilityIdx_store" where
  "set_visibilityIdx pe visibilityIdx h =
     (case h pe of
        None \<Rightarrow> (Inr (), h(pe \<mapsto> visibilityIdx))
      | Some _ \<Rightarrow> (Inl VisibilityIndexAlreadySet, h))"

definition get_visibilityIdx :: "PathElem \<Rightarrow> visibilityIdx_store \<Rightarrow> error + nat" where
  "get_visibilityIdx pe h =
     (case h pe of
        None \<Rightarrow> Inl VisibilityIndexUnset
      | Some v \<Rightarrow> Inr v)"

text \<open>
  \<^verbatim>\<open>focalSideNeighbor\<close>: \<^verbatim>\<open>null\<close> at distance 0, else the member one step nearer the focal
  offset; \<^verbatim>\<open>distance / Math.abs(distance)\<close> is the sign of the distance. An offset outside
  the array reads as \<^verbatim>\<open>undefined\<close>; the callers only test the result for truthiness, so
  both \<^verbatim>\<open>null\<close> and \<^verbatim>\<open>undefined\<close> are \<open>None\<close>.
\<close>

definition focalSideNeighbor :: "TDdgPath list \<Rightarrow> PathElem \<Rightarrow> PathElem option" where
  "focalSideNeighbor heap pe =
     (if distance heap pe = 0 then None
      else
        (let i = int (memberIdx pe) - sgn (distance heap pe);
             ms = members (pathOf heap pe)
         in if 0 \<le> i \<and> i < int (length ms) then Some (ms ! nat i) else None))"

section \<open>The transform from a payload to the model\<close>

text \<open>
  The registry of services: \<^verbatim>\<open>TDdgServiceMap\<close> maps a service name to its
  \<^verbatim>\<open>TDdgService\<close>, whose \<^verbatim>\<open>operations\<close> map an operation name to its \<^verbatim>\<open>TDdgOperation\<close>.
  The back reference \<^verbatim>\<open>operation.service\<close> is the name of the owning service. These
  \<^verbatim>\<open>Map\<close>s are only read with \<^verbatim>\<open>get\<close> and written with \<^verbatim>\<open>set\<close>.
\<close>

record TDdgOperation =
  name :: string
  pathElems :: "PathElem list"
  service :: string

record TDdgService =
  name :: string
  operations :: "string \<rightharpoonup> TDdgOperation"

type_synonym TDdgServiceMap = "string \<rightharpoonup> TDdgService"

text \<open>
  \<^verbatim>\<open>TDdgDistanceToPathElems\<close> is a \<^verbatim>\<open>Map<number, PathElem[]>\<close>: an association list in
  insertion order, read with \<^const>\<open>map_of\<close> and written with \<^const>\<open>AList.update\<close> (which
  replaces the value of a key that is present and appends a new key at the end).
\<close>

type_synonym TDdgDistanceToPathElems = "(int \<times> PathElem list) list"

text \<open>
  \<^verbatim>\<open>TDdgVisIdxToPathElem\<close>, as \<^verbatim>\<open>transformDdgData\<close> builds and returns it: a
  \<^verbatim>\<open>Map<number, PathElem>\<close> filled with \<^verbatim>\<open>set\<close>, an association list in insertion order.
\<close>

type_synonym TDdgVisIdxToPathElem = "(nat \<times> PathElem) list"

text \<open>
  \<^verbatim>\<open>TDdgModel\<close>, together with the store of the \<^verbatim>\<open>_visibilityIdx\<close> fields of its
  PathElems. The sources hold two revisions of the field \<^verbatim>\<open>visIdxToPathElem\<close>:
  \<^verbatim>\<open>transformDdgData\<close> returns the \<^verbatim>\<open>Map\<close> (\<^typ>\<open>TDdgVisIdxToPathElem\<close>), while
  \<^verbatim>\<open>types.tsx\<close> declares, and \<^verbatim>\<open>GraphModel\<close> reads, a \<^verbatim>\<open>PathElem[]\<close>
  (\<^typ>\<open>PathElem list\<close>). The type of the field is the parameter of the record.
\<close>

record 'v TDdgModel =
  distanceToPathElems :: TDdgDistanceToPathElems
  paths :: "TDdgPath list"
  services :: TDdgServiceMap
  visIdxToPathElem :: 'v
  visibilityIdx :: visibilityIdx_store

text \<open>\<^verbatim>\<open>({ service, operation }) => `${service}\v${operation}`\<close>\<close>

definition stringifyEntry :: "TDdgPayloadEntry \<Rightarrow> string" where
  "stringifyEntry e =
     TDdgPayloadEntry.service e @ [CHR 0x0B] @ TDdgPayloadEntry.operation e"

text \<open>\<^verbatim>\<open>Array.prototype.join\<close>; the source calls it without a separator, which is a comma.\<close>

fun join :: "string \<Rightarrow> string list \<Rightarrow> string" where
  "join sep [] = []"
| "join sep [x] = x"
| "join sep (x # y # ys) = x @ sep @ join sep (y # ys)"

definition pathCompareValue :: "TDdgPayloadEntry list \<Rightarrow> string" where
  "pathCompareValue a = join '','' (map stringifyEntry a)"

text \<open>
  \<^verbatim>\<open>payload.slice().sort((a, b) => ...)\<close>: the comparator orders two paths by their compare
  values as strings, and returns 0 when these are equal. The sort is stable (ECMAScript
  2019), so it is the stable insertion sort by that key. The \<^verbatim>\<open>pathCompareValues\<close> map only
  caches the compare value of a path.
\<close>

definition sortPaths :: "TDdgPayload \<Rightarrow> TDdgPayload" where
  "sortPaths payload = sort_key pathCompareValue payload"

text \<open>
  The test for the focal node:
  \<^verbatim>\<open>serviceName === focalService && (focalOperation == null || operationName === focalOperation)\<close>.
  A focal operation that is \<^verbatim>\<open>null\<close> or \<^verbatim>\<open>undefined\<close> is \<open>None\<close>.
\<close>

definition matchesFocal :: "string \<Rightarrow> string option \<Rightarrow> TDdgPayloadEntry \<Rightarrow> bool" where
  "matchesFocal focalService focalOperation e =
     (TDdgPayloadEntry.service e = focalService \<and>
      (focalOperation = None \<or> Some (TDdgPayloadEntry.operation e) = focalOperation))"

text \<open>
  The callback of \<^verbatim>\<open>payloadPath.map\<close> at one entry, at offset \<open>i\<close> of the path at position
  \<open>path\<close> of the arena: it creates or reuses the service and the operation, sets
  \<^verbatim>\<open>path.focalIdx\<close> when it is still \<^verbatim>\<open>-1\<close> and the entry is the focal node, creates the
  PathElem and pushes it on \<^verbatim>\<open>operation.pathElems\<close>. The state is the registry and
  \<^verbatim>\<open>path.focalIdx\<close>.
\<close>

definition mapEntry ::
  "string \<Rightarrow> string option \<Rightarrow> nat \<Rightarrow> TDdgServiceMap \<times> int \<Rightarrow> TDdgPayloadEntry \<Rightarrow> nat
     \<Rightarrow> (TDdgServiceMap \<times> int) \<times> PathElem" where
  "mapEntry focalService focalOperation path st e i =
     (let serviceMap = fst st;
          focalIdx0 = snd st;
          serviceName = TDdgPayloadEntry.service e;
          operationName = TDdgPayloadEntry.operation e;
          service0 =
            (case serviceMap serviceName of
               None \<Rightarrow> \<lparr>TDdgService.name = serviceName, operations = Map.empty\<rparr>
             | Some s \<Rightarrow> s);
          operation0 =
            (case operations service0 operationName of
               None \<Rightarrow> \<lparr>TDdgOperation.name = operationName, pathElems = [],
                         service = serviceName\<rparr>
             | Some ope \<Rightarrow> ope);
          focalIdx1 =
            (if focalIdx0 = - 1 \<and> matchesFocal focalService focalOperation e
             then int i else focalIdx0);
          pathElem = \<lparr>memberIdx = i, memberOf = path, operation = (serviceName, operationName)\<rparr>;
          operation1 = operation0\<lparr>pathElems := pathElems operation0 @ [pathElem]\<rparr>;
          service1 = service0\<lparr>operations := (operations service0)(operationName \<mapsto> operation1)\<rparr>
      in ((serviceMap(serviceName \<mapsto> service1), focalIdx1), pathElem))"

text \<open>\<^verbatim>\<open>payloadPath.map((entry, i) => ...)\<close> from offset \<open>i\<close> on.\<close>

fun mapEntries ::
  "string \<Rightarrow> string option \<Rightarrow> nat \<Rightarrow> TDdgServiceMap \<times> int \<Rightarrow> TDdgPayloadEntry list \<Rightarrow> nat
     \<Rightarrow> (TDdgServiceMap \<times> int) \<times> PathElem list" where
  "mapEntries focalService focalOperation path st [] i = (st, [])"
| "mapEntries focalService focalOperation path st (e # es) i =
     (let r = mapEntry focalService focalOperation path st e i;
          rs = mapEntries focalService focalOperation path (fst r) es (Suc i)
      in (fst rs, snd r # snd rs))"

text \<open>
  The callback of \<^verbatim>\<open>path.members.forEach\<close>: the member joins the list of its distance.
  An array is truthy also when empty.
\<close>

definition pushByDistance ::
  "TDdgPath list \<Rightarrow> TDdgDistanceToPathElems \<Rightarrow> PathElem \<Rightarrow> TDdgDistanceToPathElems" where
  "pushByDistance heap D member =
     (case map_of D (distance heap member) of
        Some elems \<Rightarrow> AList.update (distance heap member) (elems @ [member]) D
      | None \<Rightarrow> AList.update (distance heap member) [member] D)"

text \<open>
  The callback of \<^verbatim>\<open>.map(payloadPath => ...)\<close>. The state is the registry, the map of
  distances and the paths created so far, which are the arena: the new path is the next
  object of it.
\<close>

definition transformPath ::
  "string \<Rightarrow> string option \<Rightarrow> TDdgServiceMap \<times> TDdgDistanceToPathElems \<times> TDdgPath list
     \<Rightarrow> TDdgPayloadEntry list
     \<Rightarrow> error + TDdgServiceMap \<times> TDdgDistanceToPathElems \<times> TDdgPath list" where
  "transformPath focalService focalOperation st payloadPath =
     (let serviceMap = fst st;
          D = fst (snd st);
          heap = snd (snd st);
          r = mapEntries focalService focalOperation (length heap) (serviceMap, - 1) payloadPath 0;
          path = \<lparr>focalIdx = snd (fst r), members = snd r\<rparr>
      in if focalIdx path = - 1 then Inl MissingFocalNode
         else Inr (fst (fst r),
                   foldl (pushByDistance (heap @ [path])) D (members path),
                   heap @ [path]))"

fun mapPaths ::
  "string \<Rightarrow> string option \<Rightarrow> TDdgServiceMap \<times> TDdgDistanceToPathElems \<times> TDdgPath list
     \<Rightarrow> TDdgPayload
     \<Rightarrow> error + TDdgServiceMap \<times> TDdgDistanceToPathElems \<times> TDdgPath list" where
  "mapPaths focalService focalOperation st [] = Inr st"
| "mapPaths focalService focalOperation st (payloadPath # rest) =
     (case transformPath focalService focalOperation st payloadPath of
        Inl e \<Rightarrow> Inl e
      | Inr st1 \<Rightarrow> mapPaths focalService focalOperation st1 rest)"

text \<open>
  The assignment of the visibility indices. Its state is the counter \<^verbatim>\<open>visIdx\<close>, the
  \<^verbatim>\<open>Map\<close> \<^verbatim>\<open>visIdxToPathElem\<close> the source fills with \<^verbatim>\<open>set\<close>, in insertion order, and the
  store of the \<^verbatim>\<open>_visibilityIdx\<close> fields.
\<close>

type_synonym assign_state = "nat \<times> TDdgVisIdxToPathElem \<times> visibilityIdx_store"

text \<open>
  \<^verbatim>\<open>visIdxToPathElem.set(visIdx, pathElem); pathElem.visibilityIdx = visIdx++;\<close>
\<close>

definition setIdx :: "assign_state \<Rightarrow> PathElem \<Rightarrow> error + assign_state" where
  "setIdx st pathElem =
     (let visIdx = fst st;
          table = AList.update visIdx pathElem (fst (snd st));
          r = set_visibilityIdx pathElem visIdx (snd (snd st))
      in case fst r of
           Inl e \<Rightarrow> Inl e
         | Inr _ \<Rightarrow> Inr (Suc visIdx, table, snd r))"

fun forEach_setIdx :: "assign_state \<Rightarrow> PathElem list \<Rightarrow> error + assign_state" where
  "forEach_setIdx st [] = Inr st"
| "forEach_setIdx st (pathElem # rest) =
     (case setIdx st pathElem of
        Inl e \<Rightarrow> Inl e
      | Inr st1 \<Rightarrow> forEach_setIdx st1 rest)"

text \<open>
  The body of the \<^verbatim>\<open>do ... while\<close> loop: the elements at distance \<^verbatim>\<open>downstream\<close>, then
  those at distance \<^verbatim>\<open>upstream\<close>.
\<close>

definition assignTiers ::
  "TDdgDistanceToPathElems \<Rightarrow> int \<Rightarrow> int \<Rightarrow> assign_state \<Rightarrow> error + assign_state" where
  "assignTiers D downstream upstream st =
     (case (case map_of D downstream of
              None \<Rightarrow> Inr st
            | Some downstreamElems \<Rightarrow> forEach_setIdx st downstreamElems) of
        Inl e \<Rightarrow> Inl e
      | Inr st1 \<Rightarrow>
          (case map_of D upstream of
             None \<Rightarrow> Inr st1
           | Some upstreamElems \<Rightarrow> forEach_setIdx st1 upstreamElems))"

text \<open>
  The number of keys of the map that the loop can still reach from \<^verbatim>\<open>downstream\<close> and
  \<^verbatim>\<open>upstream\<close>: it decreases with every iteration that goes on.
\<close>

definition keysAhead :: "TDdgDistanceToPathElems \<Rightarrow> int \<Rightarrow> int \<Rightarrow> nat" where
  "keysAhead D downstream upstream =
     length (filter (\<lambda>kv. fst kv \<le> downstream) D) +
     length (filter (\<lambda>kv. upstream \<le> fst kv) D)"

lemma filter_length_strict:
  assumes "x \<in> set xs" and "P x" and "\<not> Q x" and "\<And>y. Q y \<Longrightarrow> P y"
  shows "length (filter Q xs) < length (filter P xs)"
  using assms(1)
proof (induction xs)
  case Nil
  then show ?case by simp
next
  case (Cons a xs)
  have le: "length (filter Q xs) \<le> length (filter P xs)"
    by (induction xs) (auto dest: assms(4))
  show ?case
  proof (cases "x = a")
    case True
    then show ?thesis using assms(2,3) le by simp
  next
    case False
    with Cons have "length (filter Q xs) < length (filter P xs)" by simp
    then show ?thesis using assms(4) [of a] by auto
  qed
qed

lemma filter_length_mono:
  assumes "\<And>y. Q y \<Longrightarrow> P y"
  shows "length (filter Q xs) \<le> length (filter P xs)"
  by (induction xs) (auto dest: assms)

lemma keysAhead_decreases:
  assumes "map_of D downstream \<noteq> None \<or> map_of D upstream \<noteq> None"
  shows "keysAhead D (downstream - 1) (upstream + 1) < keysAhead D downstream upstream"
proof -
  have d: "length (filter (\<lambda>kv. fst kv \<le> downstream - 1) D)
           \<le> length (filter (\<lambda>kv. fst kv \<le> downstream) D)"
    by (rule filter_length_mono) simp
  have u: "length (filter (\<lambda>kv. upstream + 1 \<le> fst kv) D)
           \<le> length (filter (\<lambda>kv. upstream \<le> fst kv) D)"
    by (rule filter_length_mono) simp
  from assms show ?thesis
  proof
    assume "map_of D downstream \<noteq> None"
    then obtain v where "(downstream, v) \<in> set D" by (auto dest: map_of_SomeD)
    then have "length (filter (\<lambda>kv. fst kv \<le> downstream - 1) D)
               < length (filter (\<lambda>kv. fst kv \<le> downstream) D)"
      by (rule filter_length_strict) auto
    with u show ?thesis by (simp add: keysAhead_def)
  next
    assume "map_of D upstream \<noteq> None"
    then obtain v where "(upstream, v) \<in> set D" by (auto dest: map_of_SomeD)
    then have "length (filter (\<lambda>kv. upstream + 1 \<le> fst kv) D)
               < length (filter (\<lambda>kv. upstream \<le> fst kv) D)"
      by (rule filter_length_strict) auto
    with d show ?thesis by (simp add: keysAhead_def)
  qed
qed

text \<open>
  \<^verbatim>\<open>do { downstreamElems = distanceToPathElems.get(downstream--); upstreamElems =
  distanceToPathElems.get(upstream++); ... } while (downstreamElems || upstreamElems);\<close>
\<close>

function assignLoop ::
  "TDdgDistanceToPathElems \<Rightarrow> int \<Rightarrow> int \<Rightarrow> assign_state \<Rightarrow> error + assign_state" where
  "assignLoop D downstream upstream st =
     (case assignTiers D downstream upstream st of
        Inl e \<Rightarrow> Inl e
      | Inr st1 \<Rightarrow>
          if map_of D downstream \<noteq> None \<or> map_of D upstream \<noteq> None
          then assignLoop D (downstream - 1) (upstream + 1) st1
          else Inr st1)"
  by pat_completeness auto
termination
  by (relation "measure (\<lambda>(D, downstream, upstream, st). keysAhead D downstream upstream)")
     (auto intro: keysAhead_decreases)

declare assignLoop.simps [simp del]

text \<open>
  \<^verbatim>\<open>transformDdgData(payload, { service: focalService, operation: focalOperation })\<close>.
  It returns \<^verbatim>\<open>visIdxToPathElem\<close> as the \<^verbatim>\<open>Map\<close> it has filled.
\<close>

definition transformDdgData ::
  "TDdgPayload \<Rightarrow> string \<Rightarrow> string option \<Rightarrow> error + TDdgVisIdxToPathElem TDdgModel" where
  "transformDdgData payload focalService focalOperation =
     (case mapPaths focalService focalOperation (Map.empty, [], []) (sortPaths payload) of
        Inl e \<Rightarrow> Inl e
      | Inr st \<Rightarrow>
          (case assignLoop (fst (snd st)) 0 1 (0, [], Map.empty) of
             Inl e \<Rightarrow> Inl e
           | Inr a \<Rightarrow>
               Inr \<lparr>distanceToPathElems = fst (snd st),
                    paths = snd (snd st),
                    services = fst st,
                    visIdxToPathElem = fst (snd a),
                    visibilityIdx = snd (snd a)\<rparr>))"

section \<open>The graph model\<close>

text \<open>
  Modelled from the spec: the enum \<^verbatim>\<open>EDdgDensity\<close>, which \<^verbatim>\<open>GraphModel\<close> imports from
  \<^verbatim>\<open>../types\<close>, is not declared in the sources at hand; its members are the five density
  policies of the spec's table.
\<close>

datatype EDdgDensity =
    MostConcise
  | UpstreamVsDownstream
  | PreventPathEntanglement
  | ExternalVsInternal
  | OnePerLevel

record TDdgVertex =
  key :: string
  isFocalNode :: bool
  service :: string
  operation :: "string option"

text \<open>\<^verbatim>\<open>TEdge\<close> of plexus: \<^verbatim>\<open>{ from, to }\<close>, the keys of two vertices.\<close>

record TEdge =
  from' :: string
  to' :: string

text \<open>The object \<^verbatim>\<open>{ edges, vertices }\<close> that \<^verbatim>\<open>getVisible\<close> returns.\<close>

record visible =
  edges :: "TEdge list"
  vertices :: "TDdgVertex list"

text \<open>
  The fields of \<^verbatim>\<open>GraphModel\<close>. A \<^verbatim>\<open>Set<PathElem>\<close> is a list without repetition in
  insertion order. Vertices and edges are objects that the constructor creates once for a
  key and once for an edge id, so that equal objects are the same object.
\<close>

record GraphModel =
  density :: EDdgDensity
  distanceToPathElems :: TDdgDistanceToPathElems
  pathElemToEdge :: "PathElem \<rightharpoonup> TEdge"
  pathElemToVertex :: "PathElem \<rightharpoonup> TDdgVertex"
  showOp :: bool
  vertexToPathElems :: "TDdgVertex \<rightharpoonup> PathElem list"
  vertices :: "string \<rightharpoonup> TDdgVertex"
  visIdxToPathElem :: "PathElem list"

text \<open>\<^verbatim>\<open>Set.prototype.add\<close>\<close>

definition setAdd :: "'a \<Rightarrow> 'a list \<Rightarrow> 'a list" where
  "setAdd x xs = (if x \<in> set xs then xs else xs @ [x])"

text \<open>
  The maps the constructor fills while it walks \<^verbatim>\<open>ddgModel.visIdxToPathElem\<close>: four fields
  of the model under construction and the local \<^verbatim>\<open>edgesById\<close>.
\<close>

record 'i graph_state =
  gs_vertices :: "string \<rightharpoonup> TDdgVertex"
  gs_vertexToPathElems :: "TDdgVertex \<rightharpoonup> PathElem list"
  gs_pathElemToVertex :: "PathElem \<rightharpoonup> TDdgVertex"
  gs_pathElemToEdge :: "PathElem \<rightharpoonup> TEdge"
  gs_edgesById :: "'i \<rightharpoonup> TEdge"

text \<open>
  The first half of the callback of \<^verbatim>\<open>ddgModel.visIdxToPathElem.forEach\<close>: the vertex of
  the key is reused or created, and linked with the PathElem. The functions
  \<^verbatim>\<open>getPathElemHasher\<close> and \<^verbatim>\<open>getEdgeId\<close> are imported from modules that are not among the
  sources; they are the parameters \<open>hasher\<close> (the function that
  \<^verbatim>\<open>this.getPathElemHasher()\<close> returns) and \<open>getEdgeId\<close>.
\<close>

definition linkVertex ::
  "(PathElem \<Rightarrow> string) \<Rightarrow> bool \<Rightarrow> TDdgPath list \<Rightarrow> 'i graph_state \<Rightarrow> PathElem
     \<Rightarrow> error + TDdgVertex \<times> 'i graph_state" where
  "linkVertex hasher showOp0 heap st pathElem =
     (let key0 = hasher pathElem in
      case (case gs_vertices st key0 of
              None \<Rightarrow>
                (let isFocalNode = (distance heap pathElem = 0);
                     vertex = \<lparr>key = key0, isFocalNode = isFocalNode,
                               service = fst (PathElem.operation pathElem),
                               operation =
                                 (if showOp0 \<or> isFocalNode
                                  then Some (snd (PathElem.operation pathElem)) else None)\<rparr>
                 in Inr (vertex,
                      st\<lparr>gs_vertices := (gs_vertices st)(key0 \<mapsto> vertex),
                         gs_vertexToPathElems :=
                           (gs_vertexToPathElems st)(vertex \<mapsto> [pathElem])\<rparr>))
            | Some vertex \<Rightarrow>
                (case gs_vertexToPathElems st vertex of
                   None \<Rightarrow> Inl VertexWithoutPathElems
                 | Some pathElemsForVertex \<Rightarrow>
                     Inr (vertex,
                       st\<lparr>gs_vertexToPathElems :=
                            (gs_vertexToPathElems st)
                              (vertex \<mapsto> setAdd pathElem pathElemsForVertex)\<rparr>))) of
        Inl e \<Rightarrow> Inl e
      | Inr r \<Rightarrow>
          Inr (fst r,
            (snd r)\<lparr>gs_pathElemToVertex := (gs_pathElemToVertex (snd r))(pathElem \<mapsto> fst r)\<rparr>))"

text \<open>
  The second half: a PathElem with a focal side neighbour is connected to the vertex of that
  neighbour, with the edge of that id when there is one already.
\<close>

definition connectVertex ::
  "(string \<Rightarrow> string \<Rightarrow> 'i) \<Rightarrow> TDdgPath list \<Rightarrow> TDdgVertex \<Rightarrow> 'i graph_state \<Rightarrow> PathElem
     \<Rightarrow> error + 'i graph_state" where
  "connectVertex getEdgeId heap vertex st pathElem =
     (case focalSideNeighbor heap pathElem of
        None \<Rightarrow> Inr st
      | Some connectedElem \<Rightarrow>
          (case gs_pathElemToVertex st connectedElem of
             None \<Rightarrow> Inl DisconnectedPathElem
           | Some connectedVertex \<Rightarrow>
               (let from = (if distance heap pathElem > 0 then key connectedVertex else key vertex);
                    to = (if distance heap pathElem > 0 then key vertex else key connectedVertex);
                    edgeId = getEdgeId from to
                in case gs_edgesById st edgeId of
                     None \<Rightarrow>
                       Inr (st\<lparr>gs_edgesById :=
                                 (gs_edgesById st)(edgeId \<mapsto> \<lparr>from' = from, to' = to\<rparr>),
                               gs_pathElemToEdge :=
                                 (gs_pathElemToEdge st)
                                   (pathElem \<mapsto> \<lparr>from' = from, to' = to\<rparr>)\<rparr>)
                   | Some existingEdge \<Rightarrow>
                       Inr (st\<lparr>gs_pathElemToEdge :=
                                 (gs_pathElemToEdge st)(pathElem \<mapsto> existingEdge)\<rparr>))))"

definition addPathElem ::
  "(PathElem \<Rightarrow> string) \<Rightarrow> (string \<Rightarrow> string \<Rightarrow> 'i) \<Rightarrow> bool \<Rightarrow> TDdgPath list
     \<Rightarrow> 'i graph_state \<Rightarrow> PathElem \<Rightarrow> error + 'i graph_state" where
  "addPathElem hasher getEdgeId showOp0 heap st pathElem =
     (case linkVertex hasher showOp0 heap st pathElem of
        Inl e \<Rightarrow> Inl e
      | Inr r \<Rightarrow> connectVertex getEdgeId heap (fst r) (snd r) pathElem)"

fun forEach_addPathElem ::
  "(PathElem \<Rightarrow> string) \<Rightarrow> (string \<Rightarrow> string \<Rightarrow> 'i) \<Rightarrow> bool \<Rightarrow> TDdgPath list
     \<Rightarrow> 'i graph_state \<Rightarrow> PathElem list \<Rightarrow> error + 'i graph_state" where
  "forEach_addPathElem hasher getEdgeId showOp0 heap st [] = Inr st"
| "forEach_addPathElem hasher getEdgeId showOp0 heap st (pathElem # rest) =
     (case addPathElem hasher getEdgeId showOp0 heap st pathElem of
        Inl e \<Rightarrow> Inl e
      | Inr st1 \<Rightarrow> forEach_addPathElem hasher getEdgeId showOp0 heap st1 rest)"

text \<open>
  \<^verbatim>\<open>new GraphModel({ ddgModel, density, showOp })\<close>. The hasher that
  \<^verbatim>\<open>this.getPathElemHasher()\<close> returns depends on the density and on \<^verbatim>\<open>showOp\<close>, and reads the
  PathElem with its path. The argument \<^verbatim>\<open>ddgModel\<close> is a \<^verbatim>\<open>TDdgModel\<close> of \<^verbatim>\<open>types.tsx\<close>, in
  which \<^verbatim>\<open>visIdxToPathElem\<close> is an array: \<^verbatim>\<open>slice()\<close> copies it and \<^verbatim>\<open>forEach\<close> walks it from
  index 0 on. The \<^verbatim>\<open>Map\<close> that \<^const>\<open>transformDdgData\<close> returns is no such array (it has no
  \<^verbatim>\<open>slice\<close>), so that a result of \<^const>\<open>transformDdgData\<close> is not an argument of this function.
\<close>

definition newGraphModel ::
  "(EDdgDensity \<Rightarrow> bool \<Rightarrow> TDdgPath list \<Rightarrow> PathElem \<Rightarrow> string) \<Rightarrow> (string \<Rightarrow> string \<Rightarrow> 'i)
     \<Rightarrow> PathElem list TDdgModel \<Rightarrow> EDdgDensity \<Rightarrow> bool \<Rightarrow> error + GraphModel" where
  "newGraphModel getPathElemHasher getEdgeId ddgModel density0 showOp0 =
     (case forEach_addPathElem (getPathElemHasher density0 showOp0 (paths ddgModel)) getEdgeId
             showOp0 (paths ddgModel)
             \<lparr>gs_vertices = Map.empty, gs_vertexToPathElems = Map.empty,
              gs_pathElemToVertex = Map.empty, gs_pathElemToEdge = Map.empty,
              gs_edgesById = Map.empty\<rparr>
             (TDdgModel.visIdxToPathElem ddgModel) of
        Inl e \<Rightarrow> Inl e
      | Inr st \<Rightarrow>
          Inr \<lparr>density = density0,
               distanceToPathElems = TDdgModel.distanceToPathElems ddgModel,
               pathElemToEdge = gs_pathElemToEdge st,
               pathElemToVertex = gs_pathElemToVertex st,
               showOp = showOp0,
               vertexToPathElems = gs_vertexToPathElems st,
               vertices = gs_vertices st,
               visIdxToPathElem = TDdgModel.visIdxToPathElem ddgModel\<rparr>)"

text \<open>\<^verbatim>\<open>getDefaultVisiblePathElems\<close>: the elements at the distances -2 to 2.\<close>

definition getDefaultVisiblePathElems :: "GraphModel \<Rightarrow> PathElem list" where
  "getDefaultVisiblePathElems g =
     concat (map (\<lambda>d. case map_of (distanceToPathElems g) d of None \<Rightarrow> [] | Some elems \<Rightarrow> elems)
       [- 2, - 1, 0, 1, 2])"

text \<open>
  \<^verbatim>\<open>getVisiblePathElems\<close>. The function \<^verbatim>\<open>decode\<close> of the visibility codec is the parameter \<open>decode0\<close>; it
  returns the indices of a token or fails. \<^verbatim>\<open>this.visIdxToPathElem[visIdx]\<close> is \<^verbatim>\<open>undefined\<close>
  outside the array, and \<^verbatim>\<open>filter(Boolean)\<close> drops it.
\<close>

definition getVisiblePathElems ::
  "(string \<Rightarrow> error + nat list) \<Rightarrow> GraphModel \<Rightarrow> string option \<Rightarrow> error + PathElem list" where
  "getVisiblePathElems decode0 g visEncoding =
     (case visEncoding of
        None \<Rightarrow> Inr (getDefaultVisiblePathElems g)
      | Some enc \<Rightarrow>
          (case decode0 enc of
             Inl e \<Rightarrow> Inl e
           | Inr indices \<Rightarrow>
               Inr (List.map_filter
                     (\<lambda>visIdx. if visIdx < length (visIdxToPathElem g)
                               then Some (visIdxToPathElem g ! visIdx) else None)
                     indices)))"

text \<open>The callback of \<^verbatim>\<open>pathElems.forEach\<close> in \<^verbatim>\<open>getVisible\<close>, on the two \<^verbatim>\<open>Set\<close>s.\<close>

fun collectVisible :: "GraphModel \<Rightarrow> visible \<Rightarrow> PathElem list \<Rightarrow> error + visible" where
  "collectVisible g acc [] = Inr acc"
| "collectVisible g acc (pathElem # rest) =
     (let edges1 =
            (case pathElemToEdge g pathElem of
               Some edge \<Rightarrow> setAdd edge (edges acc)
             | None \<Rightarrow> edges acc)
      in case pathElemToVertex g pathElem of
           Some vertex \<Rightarrow>
             collectVisible g
               \<lparr>edges = edges1, visible.vertices = setAdd vertex (visible.vertices acc)\<rparr> rest
         | None \<Rightarrow> Inl PathElemNotInModel)"

text \<open>\<^verbatim>\<open>getVisible\<close>, without the memoization, which is not observable.\<close>

definition getVisible ::
  "(string \<Rightarrow> error + nat list) \<Rightarrow> GraphModel \<Rightarrow> string option \<Rightarrow> error + visible" where
  "getVisible decode0 g visEncoding =
     (case getVisiblePathElems decode0 g visEncoding of
        Inl e \<Rightarrow> Inl e
      | Inr elems \<Rightarrow> collectVisible g \<lparr>edges = [], visible.vertices = []\<rparr> elems)"

text \<open>
  The string functions of \<^verbatim>\<open>getVisibleUiFindMatches\<close>. \<^verbatim>\<open>String.prototype.trim\<close> removes
  white space and line terminators at both ends; among the 256 characters these are tab,
  line feed, vertical tab, form feed, carriage return, space and the no-break space.
  \<^verbatim>\<open>toLowerCase\<close> maps the capital letters of ASCII and of Latin-1 to their small letters.
\<close>

definition isWhiteSpace :: "char \<Rightarrow> bool" where
  "isWhiteSpace c =
     (c = CHR 0x09 \<or> c = CHR 0x0A \<or> c = CHR 0x0B \<or> c = CHR 0x0C \<or> c = CHR 0x0D \<or>
      c = CHR 0x20 \<or> c = CHR 0xA0)"

definition trim :: "string \<Rightarrow> string" where
  "trim s = rev (dropWhile isWhiteSpace (rev (dropWhile isWhiteSpace s)))"

definition toLowerChar :: "char \<Rightarrow> char" where
  "toLowerChar c =
     (let n = (of_char c :: nat)
      in if (65 \<le> n \<and> n \<le> 90) \<or> (192 \<le> n \<and> n \<le> 222 \<and> n \<noteq> 215)
         then char_of (n + 32) else c)"

definition toLowerCase :: "string \<Rightarrow> string" where
  "toLowerCase s = map toLowerChar s"

text \<open>\<^verbatim>\<open>String.prototype.split\<close> with a separator of one character.\<close>

fun split :: "char \<Rightarrow> string \<Rightarrow> string list" where
  "split sep [] = [[]]"
| "split sep (c # s) =
     (if c = sep then [] # split sep s
      else (case split sep s of
              [] \<Rightarrow> [[c]]
            | t # ts \<Rightarrow> (c # t) # ts))"

fun startsWith :: "string \<Rightarrow> string \<Rightarrow> bool" where
  "startsWith s [] = True"
| "startsWith [] (c # t) = False"
| "startsWith (a # s) (c # t) = (a = c \<and> startsWith s t)"

text \<open>\<^verbatim>\<open>String.prototype.includes\<close>\<close>

fun includes' :: "string \<Rightarrow> string \<Rightarrow> bool" where
  "includes' [] t = (t = [])"
| "includes' (a # s) t = (startsWith (a # s) t \<or> includes' s t)"

text \<open>
  The inner loop of \<^verbatim>\<open>getVisibleUiFindMatches\<close> for one vertex: some token of
  \<^verbatim>\<open>uiFindArr\<close> is included in the service name or in the operation name, both in lower case.
  \<^verbatim>\<open>op && op.includes(...)\<close> is falsy when the operation is \<^verbatim>\<open>null\<close> or empty.
\<close>

definition uiFindMatches :: "string list \<Rightarrow> TDdgVertex \<Rightarrow> bool" where
  "uiFindMatches uiFindArr vertex =
     (let svc = toLowerCase (TDdgVertex.service vertex);
          ope = map_option toLowerCase (TDdgVertex.operation vertex)
      in list_ex
           (\<lambda>token. includes' svc token \<or>
              (case ope of None \<Rightarrow> False | Some o1 \<Rightarrow> o1 \<noteq> [] \<and> includes' o1 token))
           uiFindArr)"

text \<open>
  \<^verbatim>\<open>getVisibleUiFindMatches(uiFind, visEncoding)\<close>; \<^verbatim>\<open>!uiFind\<close> holds for \<^verbatim>\<open>undefined\<close> and for
  the empty string. The result is a \<^verbatim>\<open>Set\<close> of vertices.
\<close>

definition getVisibleUiFindMatches ::
  "(string \<Rightarrow> error + nat list) \<Rightarrow> GraphModel \<Rightarrow> string option \<Rightarrow> string option
     \<Rightarrow> error + TDdgVertex list" where
  "getVisibleUiFindMatches decode0 g uiFind visEncoding =
     (case uiFind of
        None \<Rightarrow> Inr []
      | Some q \<Rightarrow>
          if q = [] then Inr []
          else
            (let uiFindArr = split CHR '' '' (toLowerCase (trim q))
             in case getVisible decode0 g visEncoding of
                  Inl e \<Rightarrow> Inl e
                | Inr r \<Rightarrow>
                    Inr (foldl (\<lambda>vertexSet vertex.
                                  if uiFindMatches uiFindArr vertex
                                  then setAdd vertex vertexSet else vertexSet)
                          [] (visible.vertices r))))"

section \<open>The visibility codec\<close>

text \<open>
  Modelled from the spec: the functions \<^verbatim>\<open>encode\<close> and \<^verbatim>\<open>decode\<close> of the module
  \<^verbatim>\<open>visibility-codec\<close>, which \<^verbatim>\<open>GraphModel\<close> imports, are not among the sources. The spec asks
  for a reversible mapping between a finite set of non-negative integers and a string token
  in which the empty set has one canonical empty token, favours sorted delta segments and
  leaves the layout of the token open, and has \<^verbatim>\<open>decode\<close> fail on an invalid token without a
  partial result. In this model the token of a set is the list of its members in ascending
  order, each written in decimal as its difference to the member before (the first as it
  is), separated by commas, and the token of the empty set is the empty string. \<^verbatim>\<open>decode\<close>
  returns the members as an array, as its callers in \<^verbatim>\<open>GraphModel\<close> read it, and rejects a
  number that is empty or has a character other than a digit, and a difference of 0 after
  the first number.
\<close>

definition digitChars :: string where
  "digitChars = ''0123456789''"

definition digitVal :: "char \<Rightarrow> nat option" where
  "digitVal c = map_of (zip digitChars [0 ..< 10]) c"

fun showNat :: "nat \<Rightarrow> string" where
  "showNat n =
     (if n < 10 then [digitChars ! n] else showNat (n div 10) @ [digitChars ! (n mod 10)])"

fun parseDigits :: "nat \<Rightarrow> string \<Rightarrow> nat option" where
  "parseDigits acc [] = Some acc"
| "parseDigits acc (c # cs) =
     (case digitVal c of None \<Rightarrow> None | Some d \<Rightarrow> parseDigits (10 * acc + d) cs)"

definition parseNat :: "string \<Rightarrow> nat option" where
  "parseNat s = (if s = [] then None else parseDigits 0 s)"

fun deltas :: "nat \<Rightarrow> nat list \<Rightarrow> nat list" where
  "deltas prev [] = []"
| "deltas prev (x # xs) = (x - prev) # deltas x xs"

fun sums :: "nat \<Rightarrow> nat list \<Rightarrow> nat list" where
  "sums prev [] = []"
| "sums prev (d # ds) = (prev + d) # sums (prev + d) ds"

definition encode :: "nat set \<Rightarrow> string" where
  "encode indices = join '','' (map showNat (deltas 0 (sorted_list_of_set indices)))"

definition decode :: "string \<Rightarrow> error + nat list" where
  "decode token =
     (if token = [] then Inr []
      else (case those (map parseNat (split CHR '','' token)) of
              None \<Rightarrow> Inl MalformedVisibilityToken
            | Some ds \<Rightarrow>
                if 0 \<in> set (tl ds) then Inl MalformedVisibilityToken
                else Inr (sums 0 ds)))"

section \<open>Notions used to state and prove the results\<close>

definition elemAt :: "nat \<Rightarrow> nat \<Rightarrow> TDdgPayloadEntry \<Rightarrow> PathElem" where
  "elemAt p i e =
     \<lparr>memberIdx = i, memberOf = p,
      operation = (TDdgPayloadEntry.service e, TDdgPayloadEntry.operation e)\<rparr>"

definition firstFocal :: "string \<Rightarrow> string option \<Rightarrow> TDdgPayloadEntry list \<Rightarrow> nat" where
  "firstFocal fs fo es = length (takeWhile (\<lambda>e. \<not> matchesFocal fs fo e) es)"

definition hasFocal :: "string \<Rightarrow> string option \<Rightarrow> TDdgPayloadEntry list \<Rightarrow> bool" where
  "hasFocal fs fo es = list_ex (matchesFocal fs fo) es"

definition pathAt :: "string \<Rightarrow> string option \<Rightarrow> nat \<Rightarrow> TDdgPayloadEntry list \<Rightarrow> TDdgPath" where
  "pathAt fs fo p es =
     \<lparr>focalIdx = int (firstFocal fs fo es),
      members = map (\<lambda>ie. elemAt p (fst ie) (snd ie)) (enumerate 0 es)\<rparr>"

definition allElems :: "TDdgPath list \<Rightarrow> PathElem list" where
  "allElems P = concat (map members P)"

definition tier :: "TDdgPath list \<Rightarrow> int \<Rightarrow> PathElem list" where
  "tier P d = filter (\<lambda>pe. distance P pe = d) (allElems P)"

definition getD :: "TDdgDistanceToPathElems \<Rightarrow> int \<Rightarrow> PathElem list" where
  "getD D d = (case map_of D d of None \<Rightarrow> [] | Some l \<Rightarrow> l)"

definition noEmpty :: "TDdgDistanceToPathElems \<Rightarrow> bool" where
  "noEmpty D = (\<forall>d. map_of D d \<noteq> Some [])"

definition wfHeap :: "TDdgPath list \<Rightarrow> bool" where
  "wfHeap P = (\<forall>pe \<in> set (allElems P). memberOf pe < length P)"

definition groups :: "TDdgPath list \<Rightarrow> TDdgDistanceToPathElems \<Rightarrow> bool" where
  "groups P D = (noEmpty D \<and> (\<forall>d. getD D d = tier P d))"

definition pathsFrom ::
  "string \<Rightarrow> string option \<Rightarrow> nat \<Rightarrow> TDdgPayload \<Rightarrow> TDdgPath list" where
  "pathsFrom fs fo n pps = map (\<lambda>pe. pathAt fs fo (fst pe) (snd pe)) (enumerate n pps)"

definition assigned ::
  "nat \<Rightarrow> PathElem list \<Rightarrow> visibilityIdx_store \<Rightarrow> visibilityIdx_store \<Rightarrow> bool" where
  "assigned n es h h' =
     ((\<forall>i < length es. h' (es ! i) = Some (n + i)) \<and> (\<forall>pe. pe \<notin> set es \<longrightarrow> h' pe = h pe))"

definition tiersFrom :: "TDdgPath list \<Rightarrow> nat \<Rightarrow> nat \<Rightarrow> PathElem list" where
  "tiersFrom P k N = concat (map (\<lambda>j. tier P (- int j) @ tier P (int j + 1)) [k..<N])"

fun tierOrder :: "nat \<Rightarrow> int list" where
  "tierOrder 0 = []"
| "tierOrder (Suc n) = tierOrder n @ [- int n, int n + 1]"

text \<open>
  The two keys of the edge that the constructor computes for a PathElem \<open>pe\<close> with the
  focal side neighbour \<open>n\<close>: \<^verbatim>\<open>from\<close> and \<^verbatim>\<open>to\<close>.
\<close>

definition edgeEnds ::
  "(PathElem \<Rightarrow> string) \<Rightarrow> TDdgPath list \<Rightarrow> PathElem \<Rightarrow> PathElem \<Rightarrow> string \<times> string" where
  "edgeEnds hasher heap pe n =
     (if distance heap pe > 0 then (hasher n, hasher pe) else (hasher pe, hasher n))"

text \<open>The invariant of the maps under construction.\<close>

definition graphInv ::
  "(PathElem \<Rightarrow> string) \<Rightarrow> (string \<Rightarrow> string \<Rightarrow> 'i) \<Rightarrow> TDdgPath list \<Rightarrow> 'i graph_state \<Rightarrow> bool" where
  "graphInv hasher getEdgeId heap st =
     ((\<forall>k v. gs_vertices st k = Some v \<longrightarrow> key v = k \<and> gs_vertexToPathElems st v \<noteq> None) \<and>
      (\<forall>pe v. gs_pathElemToVertex st pe = Some v \<longrightarrow> gs_vertices st (hasher pe) = Some v) \<and>
      (\<forall>i e. gs_edgesById st i = Some e \<longrightarrow> getEdgeId (from' e) (to' e) = i) \<and>
      (\<forall>pe e. gs_pathElemToEdge st pe = Some e \<longrightarrow>
         (\<exists>n. focalSideNeighbor heap pe = Some n \<and>
              getEdgeId (from' e) (to' e)
                = getEdgeId (fst (edgeEnds hasher heap pe n)) (snd (edgeEnds hasher heap pe n)))) \<and>
      (\<forall>pe n. gs_pathElemToVertex st pe \<noteq> None \<and> focalSideNeighbor heap pe = Some n \<longrightarrow>
         gs_pathElemToEdge st pe \<noteq> None))"

text \<open>
  A list of PathElems in which the focal side neighbour of every element is the element
  itself, an earlier element or a member of \<open>seen\<close>: the lists on which the constructor
  finds the vertex of every neighbour.
\<close>

fun connected :: "TDdgPath list \<Rightarrow> PathElem set \<Rightarrow> PathElem list \<Rightarrow> bool" where
  "connected heap seen [] = True"
| "connected heap seen (pe # rest) =
     ((case focalSideNeighbor heap pe of None \<Rightarrow> True | Some n \<Rightarrow> n \<in> insert pe seen) \<and>
      connected heap (insert pe seen) rest)"

text \<open>The PathElems of the indices that \<^verbatim>\<open>visIdxToPathElem\<close> has.\<close>

definition inRange :: "GraphModel \<Rightarrow> nat list \<Rightarrow> PathElem list" where
  "inRange g indices =
     List.map_filter
       (\<lambda>visIdx. if visIdx < length (visIdxToPathElem g)
                 then Some (visIdxToPathElem g ! visIdx) else None) indices"

text \<open>The position of a distance in the order 0, 1, -1, 2, -2, \<dots>\<close>

definition tierRank :: "int \<Rightarrow> nat" where
  "tierRank d = (if d > 0 then nat (2 * d - 1) else nat (- 2 * d))"

text \<open>
  \<^verbatim>\<open>GraphModel\<close> reads \<^verbatim>\<open>ddgModel.visIdxToPathElem\<close> as the array \<^verbatim>\<open>PathElem[]\<close> that
  \<^verbatim>\<open>types.tsx\<close> declares. \<open>arrayModel m\<close> is the model \<open>m\<close> with the values of its \<^verbatim>\<open>Map\<close>,
  in the order of the keys, as that array.
\<close>

definition arrayModel :: "TDdgVisIdxToPathElem TDdgModel \<Rightarrow> PathElem list TDdgModel" where
  "arrayModel m =
     \<lparr>TDdgModel.distanceToPathElems = TDdgModel.distanceToPathElems m,
      paths = paths m,
      services = services m,
      TDdgModel.visIdxToPathElem = map snd (TDdgModel.visIdxToPathElem m),
      visibilityIdx = visibilityIdx m\<rparr>"

text \<open>A payload entry, for the examples.\<close>

definition entry :: "string \<Rightarrow> string \<Rightarrow> TDdgPayloadEntry" where
  "entry s ope = \<lparr>TDdgPayloadEntry.operation = ope, service = s\<rparr>"


text \<open>
  Values for the examples: a hasher for the parameter \<open>getPathElemHasher\<close> (the key is the
  service, with the operation when operations are shown or the PathElem is focal), a
  payload of one path and its PathElems.
\<close>

definition mostConcise :: "EDdgDensity \<Rightarrow> bool \<Rightarrow> TDdgPath list \<Rightarrow> PathElem \<Rightarrow> string" where
  "mostConcise density0 showOp0 heap pathElem =
     (if showOp0 \<or> distance heap pathElem = 0
      then fst (PathElem.operation pathElem) @ ''::'' @ snd (PathElem.operation pathElem)
      else fst (PathElem.operation pathElem))"

definition examplePayload :: TDdgPayload where
  "examplePayload =
     [[entry ''A'' ''get'', entry ''B'' ''get'', entry ''C'' ''get'', entry ''D'' ''get'']]"

definition exampleElem :: "nat \<Rightarrow> string \<Rightarrow> PathElem" where
  "exampleElem i s = \<lparr>memberIdx = i, memberOf = 0, operation = (s, ''get'')\<rparr>"

definition examplePaths :: "TDdgPath list" where
  "examplePaths =
     [\<lparr>focalIdx = 1,
       members = [exampleElem 0 ''A'', exampleElem 1 ''B'', exampleElem 2 ''C'',
                  exampleElem 3 ''D'']\<rparr>]"

text \<open>
  A value for the parameter \<open>decode0\<close> in the examples: the token \<open>some\<close> stands for the
  indices 0, 2, 100 and 2 again, the token \<open>known\<close> for 0, 2 and 2, and no other token
  is well formed.
\<close>

definition exampleDecode :: "string \<Rightarrow> error + nat list" where
  "exampleDecode token =
     (if token = ''some'' then Inr [0, 2, 100, 2]
      else if token = ''known'' then Inr [0, 2, 2]
      else Inl MalformedVisibilityToken)"

section \<open>The transform: paths, distances and visibility indices\<close>

lemma mapEntry_elem: "snd (mapEntry fs fo p st e i) = elemAt p i e"
  by (simp add: mapEntry_def elemAt_def Let_def)

lemma mapEntry_focalIdx:
  "snd (fst (mapEntry fs fo p st e i)) =
     (if snd st = - 1 \<and> matchesFocal fs fo e then int i else snd st)"
  by (simp add: mapEntry_def Let_def)

lemma mapEntries_members:
  "snd (mapEntries fs fo p st es i) = map (\<lambda>ie. elemAt p (fst ie) (snd ie)) (enumerate i es)"
  by (induction es arbitrary: st i) (simp_all add: Let_def mapEntry_elem)

lemma mapEntries_focalIdx:
  "snd (fst (mapEntries fs fo p st es i)) =
     (if snd st \<noteq> - 1 then snd st
      else if hasFocal fs fo es then int (i + firstFocal fs fo es) else - 1)"
proof (induction es arbitrary: st i)
  case Nil
  then show ?case by (simp add: hasFocal_def)
next
  case (Cons e es)
  show ?case
    by (simp add: Let_def Cons.IH mapEntry_focalIdx hasFocal_def firstFocal_def)
qed

lemma firstFocal_less: "hasFocal fs fo es \<Longrightarrow> firstFocal fs fo es < length es"
  unfolding hasFocal_def firstFocal_def list_ex_iff
  by (induction es) auto

lemma firstFocal_matches:
  "hasFocal fs fo es \<Longrightarrow> matchesFocal fs fo (es ! firstFocal fs fo es)"
  using firstFocal_less [of fs fo es] nth_length_takeWhile [of "\<lambda>e. \<not> matchesFocal fs fo e" es]
  by (simp add: firstFocal_def)

lemma firstFocal_first:
  "j < firstFocal fs fo es \<Longrightarrow> \<not> matchesFocal fs fo (es ! j)"
  unfolding firstFocal_def
  by (metis (mono_tags, lifting) nth_mem set_takeWhileD takeWhile_nth)

lemma map_of_push:
  "map_of (pushByDistance heap D m) =
     (map_of D)(distance heap m \<mapsto> getD D (distance heap m) @ [m])"
  by (simp add: pushByDistance_def getD_def update_conv' split: option.splits)

lemma getD_push:
  "getD (pushByDistance heap D m) d = getD D d @ (if distance heap m = d then [m] else [])"
  by (simp add: getD_def map_of_push)

lemma noEmpty_push: "noEmpty D \<Longrightarrow> noEmpty (pushByDistance heap D m)"
  by (simp add: noEmpty_def map_of_push)

lemma getD_foldl:
  "getD (foldl (pushByDistance heap) D ms) d = getD D d @ filter (\<lambda>m. distance heap m = d) ms"
  by (induction ms arbitrary: D) (simp_all add: getD_push)

lemma noEmpty_foldl: "noEmpty D \<Longrightarrow> noEmpty (foldl (pushByDistance heap) D ms)"
  by (induction ms arbitrary: D) (simp_all add: noEmpty_push)

lemma transformPath_eq:
  "transformPath fs fo (S, D, P) es =
     (if hasFocal fs fo es
      then Inr (fst (fst (mapEntries fs fo (length P) (S, - 1) es 0)),
                foldl (pushByDistance (P @ [pathAt fs fo (length P) es])) D
                  (members (pathAt fs fo (length P) es)),
                P @ [pathAt fs fo (length P) es])
      else Inl MissingFocalNode)"
  by (simp add: transformPath_def Let_def mapEntries_focalIdx mapEntries_members pathAt_def)

lemma memberOf_pathAt: "pe \<in> set (members (pathAt fs fo p es)) \<Longrightarrow> memberOf pe = p"
  by (auto simp: pathAt_def elemAt_def)

lemma allElems_snoc: "allElems (P @ [path]) = allElems P @ members path"
  by (simp add: allElems_def)

lemma wfHeap_snoc: "wfHeap P \<Longrightarrow> wfHeap (P @ [pathAt fs fo (length P) es])"
  by (auto simp: wfHeap_def allElems_snoc dest: memberOf_pathAt)

lemma distance_snoc: "memberOf pe < length P \<Longrightarrow> distance (P @ Q) pe = distance P pe"
  by (simp add: distance_def pathOf_def nth_append)

lemma tier_snoc:
  assumes "wfHeap P"
  shows "tier (P @ [path]) d = tier P d @ filter (\<lambda>pe. distance (P @ [path]) pe = d) (members path)"
proof -
  have "filter (\<lambda>pe. distance (P @ [path]) pe = d) (allElems P)
        = filter (\<lambda>pe. distance P pe = d) (allElems P)"
    using assms by (intro filter_cong) (auto simp: wfHeap_def distance_snoc)
  then show ?thesis by (simp add: tier_def allElems_snoc)
qed

lemma groups_snoc:
  assumes "wfHeap P" and "groups P D"
  shows "groups (P @ [path]) (foldl (pushByDistance (P @ [path])) D (members path))"
  using assms by (simp add: groups_def noEmpty_foldl getD_foldl tier_snoc)

lemma mapPaths_ok:
  assumes "\<forall>es \<in> set pps. hasFocal fs fo es" and "wfHeap P" and "groups P D"
  shows "\<exists>S' D'. mapPaths fs fo (S, D, P) pps = Inr (S', D', P @ pathsFrom fs fo (length P) pps)
           \<and> wfHeap (P @ pathsFrom fs fo (length P) pps)
           \<and> groups (P @ pathsFrom fs fo (length P) pps) D'"
  using assms
proof (induction pps arbitrary: S D P)
  case Nil
  then show ?case by (simp add: pathsFrom_def)
next
  case (Cons es pps)
  let ?path = "pathAt fs fo (length P) es"
  let ?P = "P @ [?path]"
  let ?D = "foldl (pushByDistance ?P) D (members ?path)"
  have wf: "wfHeap ?P" using Cons.prems(2) by (rule wfHeap_snoc)
  have gr: "groups ?P ?D" using Cons.prems(2,3) by (rule groups_snoc)
  have rest: "\<forall>es \<in> set pps. hasFocal fs fo es" using Cons.prems(1) by simp
  from Cons.IH [OF rest wf gr]
  show ?case using Cons.prems(1) by (simp add: transformPath_eq pathsFrom_def)
qed

lemma mapPaths_fail:
  assumes "\<exists>es \<in> set pps. \<not> hasFocal fs fo es"
  shows "mapPaths fs fo st pps = Inl MissingFocalNode"
  using assms
proof (induction pps arbitrary: st)
  case Nil
  then show ?case by simp
next
  case (Cons es pps)
  obtain S D P where st: "st = (S, D, P)" by (cases st) auto
  show ?case
  proof (cases "hasFocal fs fo es")
    case True
    with Cons.prems have "\<exists>es \<in> set pps. \<not> hasFocal fs fo es" by simp
    from Cons.IH [OF this] show ?thesis using True by (simp add: st transformPath_eq)
  next
    case False
    then show ?thesis by (simp add: st transformPath_eq)
  qed
qed

lemma update_fresh: "k \<notin> fst ` set al \<Longrightarrow> AList.update k v al = al @ [(k, v)]"
  by (induction al) auto

lemma setIdx_fresh:
  assumes "h pe = None" and "\<forall>k \<in> fst ` set tbl. k < n"
  shows "setIdx (n, tbl, h) pe = Inr (Suc n, tbl @ [(n, pe)], h(pe \<mapsto> n))"
proof -
  have "n \<notin> fst ` set tbl" using assms(2) by auto
  then show ?thesis using assms(1)
    by (simp add: setIdx_def set_visibilityIdx_def Let_def update_fresh)
qed

lemma forEach_setIdx_ok:
  assumes "distinct es" and "\<forall>pe \<in> set es. h pe = None" and "\<forall>k \<in> fst ` set tbl. k < n"
  shows "\<exists>h'. forEach_setIdx (n, tbl, h) es = Inr (n + length es, tbl @ enumerate n es, h')
           \<and> assigned n es h h'"
  using assms
proof (induction es arbitrary: n tbl h)
  case Nil
  then show ?case by (simp add: assigned_def)
next
  case (Cons e es)
  have step: "setIdx (n, tbl, h) e = Inr (Suc n, tbl @ [(n, e)], h(e \<mapsto> n))"
    using Cons.prems by (intro setIdx_fresh) auto
  have d: "distinct es" and ne: "e \<notin> set es" using Cons.prems(1) by auto
  have fresh: "\<forall>pe \<in> set es. (h(e \<mapsto> n)) pe = None" using Cons.prems(2) ne by auto
  have keys: "\<forall>k \<in> fst ` set (tbl @ [(n, e)]). k < Suc n" using Cons.prems(3) by auto
  from Cons.IH [OF d fresh keys] obtain h' where
    run: "forEach_setIdx (Suc n, tbl @ [(n, e)], h(e \<mapsto> n)) es
            = Inr (Suc n + length es, (tbl @ [(n, e)]) @ enumerate (Suc n) es, h')"
    and asg: "assigned (Suc n) es (h(e \<mapsto> n)) h'" by blast
  have "assigned n (e # es) h h'"
    unfolding assigned_def
  proof (intro conjI allI impI)
    fix i assume "i < length (e # es)"
    then show "h' ((e # es) ! i) = Some (n + i)"
      using asg ne by (cases i) (auto simp: assigned_def)
  next
    fix pe assume "pe \<notin> set (e # es)"
    then show "h' pe = h pe" using asg by (auto simp: assigned_def)
  qed
  then show ?case using step run by simp
qed

lemma forEach_setIdx_append:
  "forEach_setIdx st (xs @ ys) =
     (case forEach_setIdx st xs of Inl e \<Rightarrow> Inl e | Inr st1 \<Rightarrow> forEach_setIdx st1 ys)"
  by (induction xs arbitrary: st) (auto split: sum.splits)

lemma groups_map_of:
  "groups P D \<Longrightarrow> map_of D d = (if tier P d = [] then None else Some (tier P d))"
  unfolding groups_def noEmpty_def getD_def
  by (metis (mono_tags, lifting) option.case_eq_if option.collapse)

lemma assignTiers_eq:
  assumes "groups P D"
  shows "assignTiers D d u st = forEach_setIdx st (tier P d @ tier P u)"
  by (auto simp: assignTiers_def groups_map_of [OF assms] forEach_setIdx_append split: sum.splits)

lemma assigned_append:
  assumes "distinct (xs @ ys)" and "assigned n xs h h1" and "assigned (n + length xs) ys h1 h2"
  shows "assigned n (xs @ ys) h h2"
  unfolding assigned_def
proof (intro conjI allI impI)
  fix i assume i: "i < length (xs @ ys)"
  show "h2 ((xs @ ys) ! i) = Some (n + i)"
  proof (cases "i < length xs")
    case True
    then have "xs ! i \<in> set xs" by simp
    then have "xs ! i \<notin> set ys" using assms(1) by auto
    then have "h2 (xs ! i) = h1 (xs ! i)" using assms(3) by (simp add: assigned_def)
    then show ?thesis using True assms(2) by (simp add: assigned_def nth_append)
  next
    case False
    then have "i - length xs < length ys" using i by simp
    then have "h2 (ys ! (i - length xs)) = Some (n + length xs + (i - length xs))"
      using assms(3) by (simp add: assigned_def)
    then show ?thesis using False by (simp add: nth_append)
  qed
next
  fix pe assume "pe \<notin> set (xs @ ys)"
  then show "h2 pe = h pe" using assms(2,3) by (simp add: assigned_def)
qed

lemma assignLoop_ok:
  assumes gr: "groups P D"
    and down: "\<And>j. tier P (- int j) = [] \<Longrightarrow> tier P (- int (Suc j)) = []"
    and up: "\<And>j. tier P (int j + 1) = [] \<Longrightarrow> tier P (int (Suc j) + 1) = []"
    and beyond: "\<And>j. N \<le> j \<Longrightarrow> tier P (- int j) = [] \<and> tier P (int j + 1) = []"
  shows "k \<le> N \<Longrightarrow> distinct (tiersFrom P k N) \<Longrightarrow> \<forall>pe \<in> set (tiersFrom P k N). h pe = None
     \<Longrightarrow> \<forall>i \<in> fst ` set tbl. i < n
     \<Longrightarrow> \<exists>h'. assignLoop D (- int k) (int k + 1) (n, tbl, h)
               = Inr (n + length (tiersFrom P k N), tbl @ enumerate n (tiersFrom P k N), h')
            \<and> assigned n (tiersFrom P k N) h h'"
proof (induction "N - k" arbitrary: k n tbl h)
  case 0
  then have kN: "k = N" by simp
  have e: "tier P (- int k) = []" "tier P (int k + 1) = []" using beyond [of k] kN by auto
  have "tiersFrom P k N = []" using kN by (simp add: tiersFrom_def)
  then show ?case
    by (subst assignLoop.simps)
       (simp add: assignTiers_eq [OF gr] e groups_map_of [OF gr] assigned_def)
next
  case (Suc m)
  then have kN: "k < N" by simp
  let ?T = "tier P (- int k) @ tier P (int k + 1)"
  let ?R = "tiersFrom P (Suc k) N"
  have split: "tiersFrom P k N = ?T @ ?R"
    using kN by (simp add: tiersFrom_def upt_conv_Cons)
  have dT: "distinct ?T" and dR: "distinct ?R" using Suc.prems(2) split by auto
  have fT: "\<forall>pe \<in> set ?T. h pe = None" using Suc.prems(3) split by auto
  from forEach_setIdx_ok [OF dT fT Suc.prems(4)] obtain h1 where
    run1: "forEach_setIdx (n, tbl, h) ?T = Inr (n + length ?T, tbl @ enumerate n ?T, h1)"
    and asg1: "assigned n ?T h h1" by blast
  have fR: "\<forall>pe \<in> set ?R. h1 pe = None"
  proof
    fix pe assume pe: "pe \<in> set ?R"
    then have "pe \<notin> set ?T" using Suc.prems(2) split by auto
    then have "h1 pe = h pe" using asg1 by (simp add: assigned_def)
    then show "h1 pe = None" using Suc.prems(3) split pe by auto
  qed
  have keys: "\<forall>i \<in> fst ` set (tbl @ enumerate n ?T). i < n + length ?T"
    using Suc.prems(4) by (auto simp: in_set_enumerate_eq)
  have m: "m = N - Suc k" using Suc.hyps(2) by simp
  from Suc.hyps(1) [OF m _ dR fR keys] kN obtain h2 where
    run2: "assignLoop D (- int (Suc k)) (int (Suc k) + 1) (n + length ?T, tbl @ enumerate n ?T, h1)
             = Inr (n + length ?T + length ?R, (tbl @ enumerate n ?T) @ enumerate (n + length ?T) ?R, h2)"
    and asg2: "assigned (n + length ?T) ?R h1 h2" by auto
  have asg: "assigned n (?T @ ?R) h h2"
    using Suc.prems(2) asg1 asg2 unfolding split by (rule assigned_append)
  have en: "enumerate n (?T @ ?R) = enumerate n ?T @ enumerate (n + length ?T) ?R"
    by (simp add: enumerate_append_eq add.assoc)
  have conv: "- int k - 1 = - int (Suc k)" "int k + 1 + 1 = int (Suc k) + 1" by simp_all
  show ?case
  proof (cases "?T = []")
    case True
    then have e: "tier P (- int k) = []" "tier P (int k + 1) = []" by auto
    have all: "tier P (- int (k + j)) = [] \<and> tier P (int (k + j) + 1) = []" for j
    proof (induction j)
      case 0
      then show ?case using e by simp
    next
      case (Suc j)
      have "k + Suc j = Suc (k + j)" by simp
      then show ?case using down [of "k + j"] up [of "k + j"] Suc by metis
    qed
    have "tier P (- int j) @ tier P (int j + 1) = []" if "k \<le> j" for j
      using all [of "j - k"] that by simp
    then have R: "tiersFrom P k N = []" by (auto simp: tiersFrom_def)
    show ?thesis unfolding R
      by (subst assignLoop.simps)
         (simp add: assignTiers_eq [OF gr] e groups_map_of [OF gr] assigned_def)
  next
    case False
    then have cont: "map_of D (- int k) \<noteq> None \<or> map_of D (int k + 1) \<noteq> None"
      by (auto simp: groups_map_of [OF gr])
    have "assignLoop D (- int k) (int k + 1) (n, tbl, h)
            = Inr (n + length ?T + length ?R,
                   (tbl @ enumerate n ?T) @ enumerate (n + length ?T) ?R, h2)"
      by (subst assignLoop.simps)
         (simp only: assignTiers_eq [OF gr] run1 sum.case cont if_True conv run2)
    also have "n + length ?T + length ?R = n + length (tiersFrom P k N)"
      unfolding split by simp
    also have "(tbl @ enumerate n ?T) @ enumerate (n + length ?T) ?R
               = tbl @ enumerate n (tiersFrom P k N)"
      unfolding split en by simp
    finally show ?thesis using asg unfolding split by blast
  qed
qed

lemma length_pathsFrom: "length (pathsFrom fs fo n pps) = length pps"
  by (simp add: pathsFrom_def)

lemma nth_pathsFrom:
  "p < length pps \<Longrightarrow> pathsFrom fs fo n pps ! p = pathAt fs fo (n + p) (pps ! p)"
  by (simp add: pathsFrom_def nth_enumerate_eq)

lemma pathsFrom_snoc:
  "pathsFrom fs fo n (pps @ [es]) = pathsFrom fs fo n pps @ [pathAt fs fo (n + length pps) es]"
  by (simp add: pathsFrom_def enumerate_append_eq)

lemma members_pathAt:
  "members (pathAt fs fo p es) = map (\<lambda>i. elemAt p i (es ! i)) [0..<length es]"
  by (auto simp: pathAt_def nth_enumerate_eq intro: nth_equalityI)

lemma distinct_members_pathAt: "distinct (members (pathAt fs fo p es))"
  by (simp add: members_pathAt distinct_map inj_on_def elemAt_def)

lemma pathsFrom_wf_distinct:
  "wfHeap (pathsFrom fs fo 0 pps) \<and> distinct (allElems (pathsFrom fs fo 0 pps))"
proof (induction pps rule: rev_induct)
  case Nil
  then show ?case by (simp add: pathsFrom_def wfHeap_def allElems_def)
next
  case (snoc es pps)
  let ?P = "pathsFrom fs fo 0 pps"
  have len: "length ?P = length pps" by (rule length_pathsFrom)
  have wf: "wfHeap (?P @ [pathAt fs fo (length ?P) es])"
    using snoc by (intro wfHeap_snoc) simp
  have disj: "set (allElems ?P) \<inter> set (members (pathAt fs fo (length pps) es)) = {}"
    using snoc by (auto simp: wfHeap_def len dest!: memberOf_pathAt)
  show ?case using wf snoc disj
    by (simp add: pathsFrom_snoc len allElems_snoc distinct_members_pathAt)
qed

lemma in_allElems_pathsFrom:
  "pe \<in> set (allElems (pathsFrom fs fo 0 pps)) \<longleftrightarrow>
     (\<exists>p < length pps. \<exists>i < length (pps ! p). pe = elemAt p i (pps ! p ! i))"
proof -
  have "pe \<in> set (allElems (pathsFrom fs fo 0 pps)) \<longleftrightarrow>
        (\<exists>x \<in> set (pathsFrom fs fo 0 pps). pe \<in> set (members x))"
    by (simp add: allElems_def)
  also have "\<dots> \<longleftrightarrow> (\<exists>p < length pps. pe \<in> set (members (pathsFrom fs fo 0 pps ! p)))"
    using length_pathsFrom [of fs fo 0 pps] by (metis in_set_conv_nth)
  also have "\<dots> \<longleftrightarrow> (\<exists>p < length pps. \<exists>i < length (pps ! p). pe = elemAt p i (pps ! p ! i))"
  proof -
    have "pe \<in> set (members (pathsFrom fs fo 0 pps ! p)) \<longleftrightarrow>
          (\<exists>i < length (pps ! p). pe = elemAt p i (pps ! p ! i))" if "p < length pps" for p
      using that by (auto simp: nth_pathsFrom members_pathAt)
    then show ?thesis by (intro ex_cong1 conj_cong refl)
  qed
  finally show ?thesis .
qed

lemma distance_pathsFrom:
  "p < length pps \<Longrightarrow>
     distance (pathsFrom fs fo 0 pps) (elemAt p i e) = int i - int (firstFocal fs fo (pps ! p))"
  by (simp add: distance_def pathOf_def length_pathsFrom nth_pathsFrom elemAt_def pathAt_def)

lemma tier_nonempty_iff:
  "tier (pathsFrom fs fo 0 pps) d \<noteq> [] \<longleftrightarrow>
     (\<exists>p < length pps. \<exists>i < length (pps ! p). int i - int (firstFocal fs fo (pps ! p)) = d)"
  (is "?L \<longleftrightarrow> ?R")
proof
  assume ?L
  then obtain pe where pe: "pe \<in> set (allElems (pathsFrom fs fo 0 pps))"
    and d: "distance (pathsFrom fs fo 0 pps) pe = d"
    by (auto simp: tier_def filter_empty_conv)
  from pe obtain p i where p: "p < length pps" and i: "i < length (pps ! p)"
    and eq: "pe = elemAt p i (pps ! p ! i)"
    unfolding in_allElems_pathsFrom by blast
  have "int i - int (firstFocal fs fo (pps ! p)) = d"
    using d distance_pathsFrom [OF p, of fs fo i] by (simp only: eq)
  with p i show ?R by blast
next
  assume ?R
  then obtain p i where p: "p < length pps" and i: "i < length (pps ! p)"
    and d: "int i - int (firstFocal fs fo (pps ! p)) = d" by blast
  have "elemAt p i (pps ! p ! i) \<in> set (allElems (pathsFrom fs fo 0 pps))"
    unfolding in_allElems_pathsFrom using p i by blast
  moreover have "distance (pathsFrom fs fo 0 pps) (elemAt p i (pps ! p ! i)) = d"
    using d by (simp only: distance_pathsFrom [OF p])
  ultimately show ?L by (auto simp: tier_def filter_empty_conv)
qed

lemma tier_down:
  assumes "\<forall>es \<in> set pps. hasFocal fs fo es"
    and "tier (pathsFrom fs fo 0 pps) (- int j) = []"
  shows "tier (pathsFrom fs fo 0 pps) (- int (Suc j)) = []"
proof (rule ccontr)
  assume "tier (pathsFrom fs fo 0 pps) (- int (Suc j)) \<noteq> []"
  then obtain p i where p: "p < length pps" and i: "i < length (pps ! p)"
    and d: "int i - int (firstFocal fs fo (pps ! p)) = - int (Suc j)"
    unfolding tier_nonempty_iff by blast
  have "firstFocal fs fo (pps ! p) < length (pps ! p)"
    using assms(1) p by (intro firstFocal_less) simp
  then have "Suc i < length (pps ! p)" using d by linarith
  moreover have "int (Suc i) - int (firstFocal fs fo (pps ! p)) = - int j" using d by simp
  ultimately have "tier (pathsFrom fs fo 0 pps) (- int j) \<noteq> []"
    unfolding tier_nonempty_iff using p by blast
  then show False using assms(2) by simp
qed

lemma tier_up:
  assumes "tier (pathsFrom fs fo 0 pps) (int j + 1) = []"
  shows "tier (pathsFrom fs fo 0 pps) (int (Suc j) + 1) = []"
proof (rule ccontr)
  assume "tier (pathsFrom fs fo 0 pps) (int (Suc j) + 1) \<noteq> []"
  then obtain p i where p: "p < length pps" and i: "i < length (pps ! p)"
    and d: "int i - int (firstFocal fs fo (pps ! p)) = int (Suc j) + 1"
    unfolding tier_nonempty_iff by blast
  have "i - 1 < length (pps ! p)" using i by simp
  moreover have "int (i - 1) - int (firstFocal fs fo (pps ! p)) = int j + 1" using d by linarith
  ultimately have "tier (pathsFrom fs fo 0 pps) (int j + 1) \<noteq> []"
    unfolding tier_nonempty_iff using p by blast
  then show False using assms by simp
qed

lemma tier_beyond:
  assumes "\<forall>es \<in> set pps. hasFocal fs fo es" and "\<forall>es \<in> set pps. length es \<le> N" and "N \<le> j"
  shows "tier (pathsFrom fs fo 0 pps) (- int j) = [] \<and> tier (pathsFrom fs fo 0 pps) (int j + 1) = []"
proof -
  have no: "tier (pathsFrom fs fo 0 pps) d = []" if "d = - int j \<or> d = int j + 1" for d
  proof (rule ccontr)
    assume "tier (pathsFrom fs fo 0 pps) d \<noteq> []"
    then obtain p i where p: "p < length pps" and i: "i < length (pps ! p)"
      and d: "int i - int (firstFocal fs fo (pps ! p)) = d"
      unfolding tier_nonempty_iff by blast
    have es: "pps ! p \<in> set pps" using p by simp
    have f: "firstFocal fs fo (pps ! p) < length (pps ! p)"
      using assms(1) es by (intro firstFocal_less) blast
    have l: "length (pps ! p) \<le> N" using assms(2) es by blast
    from that show False
    proof
      assume "d = - int j"
      then show False using d f l assms(3) by linarith
    next
      assume "d = int j + 1"
      then show False using d i l assms(3) by linarith
    qed
  qed
  show ?thesis using no [of "- int j"] no [of "int j + 1"] by simp
qed

lemma distance_range:
  assumes "\<forall>es \<in> set pps. hasFocal fs fo es" and "\<forall>es \<in> set pps. length es \<le> N"
    and "pe \<in> set (allElems (pathsFrom fs fo 0 pps))"
  shows "- int N < distance (pathsFrom fs fo 0 pps) pe \<and> distance (pathsFrom fs fo 0 pps) pe \<le> int N"
proof -
  from assms(3) obtain p i where p: "p < length pps" and i: "i < length (pps ! p)"
    and pe: "pe = elemAt p i (pps ! p ! i)" unfolding in_allElems_pathsFrom by blast
  have "firstFocal fs fo (pps ! p) < length (pps ! p)"
    using assms(1) p by (intro firstFocal_less) simp
  moreover have "length (pps ! p) \<le> N" using assms(2) p by simp
  ultimately show ?thesis using i by (simp add: pe distance_pathsFrom [OF p])
qed

lemma set_tierOrder: "set (tierOrder n) = {d. - int n < d \<and> d \<le> int n}"
proof (induction n)
  case 0
  show ?case by simp
next
  case (Suc n)
  have "d \<in> set (tierOrder (Suc n)) \<longleftrightarrow> - int (Suc n) < d \<and> d \<le> int (Suc n)" for d
  proof -
    have "d \<in> set (tierOrder (Suc n)) \<longleftrightarrow> (- int n < d \<and> d \<le> int n) \<or> d = - int n \<or> d = int n + 1"
      using Suc by simp blast
    also have "\<dots> \<longleftrightarrow> - int (Suc n) < d \<and> d \<le> int (Suc n)"
      by (simp only: of_nat_Suc) linarith
    finally show ?thesis .
  qed
  then show ?case by blast
qed

lemma distinct_tierOrder: "distinct (tierOrder n)"
  by (induction n) (auto simp: set_tierOrder)

lemma tiersFrom_tierOrder: "tiersFrom P 0 N = concat (map (tier P) (tierOrder N))"
  by (induction N) (simp_all add: tiersFrom_def)

lemma mset_filter_disjoint:
  "(\<And>x. \<not> (P x \<and> Q x)) \<Longrightarrow>
     mset (filter P xs) + mset (filter Q xs) = mset (filter (\<lambda>x. P x \<or> Q x) xs)"
  by (induction xs) auto

lemma mset_concat_filter:
  "distinct ds \<Longrightarrow>
     mset (concat (map (\<lambda>d. filter (\<lambda>x. f x = d) xs) ds)) = mset (filter (\<lambda>x. f x \<in> set ds) xs)"
proof (induction ds)
  case Nil
  then show ?case by simp
next
  case (Cons d ds)
  have "mset (filter (\<lambda>x. f x = d) xs) + mset (filter (\<lambda>x. f x \<in> set ds) xs)
        = mset (filter (\<lambda>x. f x = d \<or> f x \<in> set ds) xs)"
    using Cons.prems by (intro mset_filter_disjoint) auto
  then show ?case using Cons by (simp add: disj_commute eq_commute)
qed

lemma mset_tiers:
  assumes "\<forall>pe \<in> set (allElems P). distance P pe \<in> set ds" and "distinct ds"
  shows "mset (concat (map (tier P) ds)) = mset (allElems P)"
proof -
  have "mset (concat (map (tier P) ds)) = mset (filter (\<lambda>pe. distance P pe \<in> set ds) (allElems P))"
    unfolding tier_def using assms(2) by (rule mset_concat_filter)
  also have "filter (\<lambda>pe. distance P pe \<in> set ds) (allElems P) = allElems P"
    using assms(1) by (simp add: filter_id_conv)
  finally show ?thesis .
qed

lemma abs_tierOrder_bound: "d \<in> set (tierOrder n) \<Longrightarrow> \<bar>d\<bar> \<le> int n"
  by (auto simp: set_tierOrder)

lemma sorted_abs_tierOrder: "sorted (map abs (tierOrder n))"
  by (induction n) (auto simp: sorted_append dest: abs_tierOrder_bound)

lemma sorted_concat_const:
  assumes "sorted (map g ds)" and "\<And>d x. d \<in> set ds \<Longrightarrow> x \<in> set (t d) \<Longrightarrow> f x = g d"
  shows "sorted (map f (concat (map t ds)))"
  using assms
proof (induction ds)
  case Nil
  then show ?case by simp
next
  case (Cons d ds)
  have "sorted (map f (t d))"
    using Cons.prems(2) [of d] by (simp add: sorted_wrt_iff_nth_less sorted_wrt_map)
  moreover have "sorted (map f (concat (map t ds)))" using Cons by auto
  moreover have "f x \<le> f y" if "x \<in> set (t d)" "y \<in> set (concat (map t ds))" for x y
  proof -
    from that(2) obtain d' where d': "d' \<in> set ds" "y \<in> set (t d')" by auto
    have "f x = g d" using Cons.prems(2) that(1) by simp
    moreover have "f y = g d'" using Cons.prems(2) d' by simp
    moreover have "g d \<le> g d'" using Cons.prems(1) d'(1) by auto
    ultimately show ?thesis by simp
  qed
  ultimately show ?case by (auto simp: sorted_append)
qed

lemma sorted_abs_tiers: "sorted (map (\<lambda>pe. \<bar>distance P pe\<bar>) (concat (map (tier P) (tierOrder n))))"
  by (rule sorted_concat_const [where g = abs]) (auto simp: sorted_abs_tierOrder tier_def)

lemma set_sortPaths: "set (sortPaths payload) = set payload"
  by (simp add: sortPaths_def)

lemma groups_empty: "groups [] []"
  by (simp add: groups_def noEmpty_def getD_def tier_def allElems_def)

lemma transform_fail:
  assumes "\<exists>es \<in> set payload. \<not> hasFocal fs fo es"
  shows "transformDdgData payload fs fo = Inl MissingFocalNode"
proof -
  have "\<exists>es \<in> set (sortPaths payload). \<not> hasFocal fs fo es"
    using assms by (simp add: set_sortPaths)
  then show ?thesis by (simp add: transformDdgData_def mapPaths_fail)
qed

lemma transform_ok:
  assumes foc: "\<forall>es \<in> set payload. hasFocal fs fo es"
    and len: "\<forall>es \<in> set payload. length es \<le> N"
  shows "\<exists>m. transformDdgData payload fs fo = Inr m
           \<and> paths m = pathsFrom fs fo 0 (sortPaths payload)
           \<and> groups (paths m) (TDdgModel.distanceToPathElems m)
           \<and> TDdgModel.visIdxToPathElem m
               = enumerate 0 (concat (map (tier (paths m)) (tierOrder N)))
           \<and> assigned 0 (concat (map (tier (paths m)) (tierOrder N))) Map.empty (visibilityIdx m)
           \<and> mset (concat (map (tier (paths m)) (tierOrder N))) = mset (allElems (paths m))
           \<and> distinct (allElems (paths m))"
proof -
  let ?pps = "sortPaths payload"
  let ?P = "pathsFrom fs fo 0 ?pps"
  let ?L = "tiersFrom ?P 0 N"
  have foc': "\<forall>es \<in> set ?pps. hasFocal fs fo es" using foc by (simp add: set_sortPaths)
  have len': "\<forall>es \<in> set ?pps. length es \<le> N" using len by (simp add: set_sortPaths)
  have wf0: "wfHeap []" by (simp add: wfHeap_def allElems_def)
  from mapPaths_ok [OF foc' wf0 groups_empty, of Map.empty] obtain S' D' where
    run: "mapPaths fs fo (Map.empty, [], []) ?pps = Inr (S', D', ?P)" and gr: "groups ?P D'"
    by auto
  have dP: "distinct (allElems ?P)" using pathsFrom_wf_distinct by blast
  have L: "?L = concat (map (tier ?P) (tierOrder N))" by (rule tiersFrom_tierOrder)
  have range: "\<forall>pe \<in> set (allElems ?P). distance ?P pe \<in> set (tierOrder N)"
    using distance_range [OF foc' len'] by (simp add: set_tierOrder)
  have ms: "mset ?L = mset (allElems ?P)"
    unfolding L using range distinct_tierOrder by (rule mset_tiers)
  have dL: "distinct ?L" using ms dP by (metis mset_eq_imp_distinct_iff)
  have loop: "\<exists>h'. assignLoop D' (- int 0) (int 0 + 1) (0, [], Map.empty)
                 = Inr (0 + length ?L, [] @ enumerate 0 ?L, h')
               \<and> assigned 0 ?L Map.empty h'"
    by (rule assignLoop_ok [OF gr tier_down [OF foc'] tier_up tier_beyond [OF foc' len']])
       (use dL in auto)
  then obtain h' where
    run2: "assignLoop D' 0 1 (0, [], Map.empty) = Inr (length ?L, enumerate 0 ?L, h')"
    and asg: "assigned 0 ?L Map.empty h'" by auto
  show ?thesis
    using gr asg ms dP by (simp add: transformDdgData_def run run2 L del: assignLoop.simps)
qed

section \<open>The transform: the claims\<close>

lemma hasFocal_iff: "hasFocal fs fo es \<longleftrightarrow> (\<exists>e \<in> set es. matchesFocal fs fo e)"
  by (simp add: hasFocal_def list_ex_iff)

lemma length_allElems_pathsFrom:
  "length (allElems (pathsFrom fs fo 0 pps)) = sum_list (map length pps)"
  by (induction pps rule: rev_induct)
     (simp_all add: pathsFrom_snoc allElems_snoc members_pathAt, simp add: pathsFrom_def allElems_def)

lemma sum_length_sortPaths: "sum_list (map length (sortPaths payload)) = sum_list (map length payload)"
proof -
  have "mset (map length (sortPaths payload)) = mset (map length payload)"
    by (simp add: sortPaths_def)
  then show ?thesis by (metis sum_mset_sum_list)
qed

text \<open>
  C7. \<^const>\<open>transformDdgData\<close> throws if and only if some path of the payload has no entry
  that matches the focal selector (\<^const>\<open>matchesFocal\<close>: the service is the focal service
  and, when a focal operation is given, the operation is the focal operation), and the
  error is then the missing focal node. When it returns, there is one path for each
  payload path, in the sorted order, and the \<^verbatim>\<open>focalIdx\<close> of each is an offset of its payload
  path whose entry matches, with no matching entry at a lower offset. The last part states
  the same of \<^verbatim>\<open>path.focalIdx\<close> after the \<^verbatim>\<open>map\<close> over the entries of any one path that has a
  match, whatever the registry and the position of the path.
\<close>

theorem transformDdgData_MissingFocalNode:
  "((\<exists>e. transformDdgData payload focalService focalOperation = Inl e) \<longleftrightarrow>
      (\<exists>path \<in> set payload. \<forall>entry \<in> set path. \<not> matchesFocal focalService focalOperation entry)) \<and>
   (\<forall>e. transformDdgData payload focalService focalOperation = Inl e \<longrightarrow> e = MissingFocalNode) \<and>
   (\<forall>m. transformDdgData payload focalService focalOperation = Inr m \<longrightarrow>
      length (paths m) = length payload \<and>
      (\<forall>p < length payload.
         0 \<le> focalIdx (paths m ! p) \<and>
         nat (focalIdx (paths m ! p)) < length (sortPaths payload ! p) \<and>
         matchesFocal focalService focalOperation
           (sortPaths payload ! p ! nat (focalIdx (paths m ! p))) \<and>
         (\<forall>j < nat (focalIdx (paths m ! p)).
            \<not> matchesFocal focalService focalOperation (sortPaths payload ! p ! j)))) \<and>
   (\<forall>path heapSize serviceMap.
      (\<exists>entry \<in> set path. matchesFocal focalService focalOperation entry) \<longrightarrow>
      (\<exists>i < length path.
         snd (fst (mapEntries focalService focalOperation heapSize (serviceMap, - 1) path 0)) = int i \<and>
         matchesFocal focalService focalOperation (path ! i) \<and>
         (\<forall>j < i. \<not> matchesFocal focalService focalOperation (path ! j))))"
proof (intro conjI allI impI)
  let ?t = "transformDdgData payload focalService focalOperation"
  let ?bad = "\<exists>path \<in> set payload. \<forall>entry \<in> set path. \<not> matchesFocal focalService focalOperation entry"
  have bad: "?t = Inl MissingFocalNode" if "?bad"
    using that by (intro transform_fail) (simp add: hasFocal_iff)
  have good: "\<exists>m. ?t = Inr m \<and> paths m = pathsFrom focalService focalOperation 0 (sortPaths payload)"
    if "\<not> ?bad"
  proof -
    have "\<forall>es \<in> set payload. hasFocal focalService focalOperation es"
      using that by (simp add: hasFocal_iff)
    moreover have "\<forall>es \<in> set payload. length es \<le> Max (length ` set payload)"
      by simp
    ultimately show ?thesis using transform_ok by blast
  qed
  show "(\<exists>e. ?t = Inl e) \<longleftrightarrow> ?bad" using bad good by (cases ?bad) auto
  show "e = MissingFocalNode" if "?t = Inl e" for e using that bad good by (cases ?bad) auto
  {
    fix m assume m: "?t = Inr m"
    then have nb: "\<not> ?bad" using bad by auto
    from good [OF nb] m
    have P: "paths m = pathsFrom focalService focalOperation 0 (sortPaths payload)" by simp
    show "length (paths m) = length payload"
      by (simp add: P length_pathsFrom sortPaths_def)
    fix p assume p: "p < length payload"
    then have p': "p < length (sortPaths payload)" by (simp add: sortPaths_def)
    then have "sortPaths payload ! p \<in> set payload"
      using set_sortPaths nth_mem by blast
    then have hf: "hasFocal focalService focalOperation (sortPaths payload ! p)"
      using nb by (auto simp: hasFocal_iff)
    have f: "focalIdx (paths m ! p) = int (firstFocal focalService focalOperation (sortPaths payload ! p))"
      by (simp add: P nth_pathsFrom [OF p'] pathAt_def)
    show "0 \<le> focalIdx (paths m ! p)" by (simp add: f)
    show "nat (focalIdx (paths m ! p)) < length (sortPaths payload ! p)"
      using firstFocal_less [OF hf] by (simp add: f)
    show "matchesFocal focalService focalOperation
            (sortPaths payload ! p ! nat (focalIdx (paths m ! p)))"
      using firstFocal_matches [OF hf] by (simp add: f)
    show "\<not> matchesFocal focalService focalOperation (sortPaths payload ! p ! j)"
      if "j < nat (focalIdx (paths m ! p))" for j
      using that firstFocal_first [of j focalService focalOperation] by (simp add: f)
  }
  {
    fix path :: "TDdgPayloadEntry list" and heapSize serviceMap
    assume "\<exists>entry \<in> set path. matchesFocal focalService focalOperation entry"
    then have hf: "hasFocal focalService focalOperation path" by (simp add: hasFocal_iff)
    let ?i = "firstFocal focalService focalOperation path"
    have "snd (fst (mapEntries focalService focalOperation heapSize (serviceMap, - 1) path 0)) = int ?i"
      using hf by (simp add: mapEntries_focalIdx)
    then show "\<exists>i < length path.
         snd (fst (mapEntries focalService focalOperation heapSize (serviceMap, - 1) path 0)) = int i \<and>
         matchesFocal focalService focalOperation (path ! i) \<and>
         (\<forall>j < i. \<not> matchesFocal focalService focalOperation (path ! j))"
      using firstFocal_less [OF hf] firstFocal_matches [OF hf] firstFocal_first by blast
  }
qed

lemma example_missing:
  "map_sum id (\<lambda>m. ())
     (transformDdgData
        [[entry ''A'' ''get'', entry ''B'' ''get'', entry ''C'' ''get''],
         [entry ''A'' ''get'', entry ''C'' ''get'']] ''B'' None) = Inl MissingFocalNode"
  by code_simp

lemma example_focalIdx:
  "map_sum id (\<lambda>m. map focalIdx (paths m))
     (transformDdgData
        [[entry ''B'' ''get'', entry ''B'' ''put''],
         [entry ''A'' ''get'', entry ''B'' ''put'', entry ''C'' ''get'']] ''B'' (Some ''put''))
   = Inr [1, 1]"
  by code_simp

theorem transformDdgData_MissingFocalNode_witness:
  "(\<exists>e. transformDdgData
          [[entry ''A'' ''get'', entry ''B'' ''get'', entry ''C'' ''get''],
           [entry ''A'' ''get'', entry ''C'' ''get'']] ''B'' None = Inl e) \<and>
   (\<exists>m. transformDdgData
          [[entry ''B'' ''get'', entry ''B'' ''put''],
           [entry ''A'' ''get'', entry ''B'' ''put'', entry ''C'' ''get'']] ''B'' (Some ''put'') = Inr m \<and>
        map focalIdx (paths m) = [1, 1])"
proof -
  have bad: "\<exists>path \<in> set [[entry ''A'' ''get'', entry ''B'' ''get'', entry ''C'' ''get''],
           [entry ''A'' ''get'', entry ''C'' ''get'']].
      \<forall>e \<in> set path. \<not> matchesFocal ''B'' None e"
    by (simp add: matchesFocal_def entry_def)
  have 1: "\<exists>e. transformDdgData
          [[entry ''A'' ''get'', entry ''B'' ''get'', entry ''C'' ''get''],
           [entry ''A'' ''get'', entry ''C'' ''get'']] ''B'' None = Inl e"
    using transformDdgData_MissingFocalNode
      [of "[[entry ''A'' ''get'', entry ''B'' ''get'', entry ''C'' ''get''],
            [entry ''A'' ''get'', entry ''C'' ''get'']]" "''B''" None] bad
    by (simp only:)
  have good: "\<not> (\<exists>path \<in> set [[entry ''B'' ''get'', entry ''B'' ''put''],
           [entry ''A'' ''get'', entry ''B'' ''put'', entry ''C'' ''get'']].
      \<forall>e \<in> set path. \<not> matchesFocal ''B'' (Some ''put'') e)"
    by (simp add: matchesFocal_def entry_def)
  have "\<not> (\<exists>e. transformDdgData
          [[entry ''B'' ''get'', entry ''B'' ''put''],
           [entry ''A'' ''get'', entry ''B'' ''put'', entry ''C'' ''get'']] ''B'' (Some ''put'') = Inl e)"
    using transformDdgData_MissingFocalNode
      [of "[[entry ''B'' ''get'', entry ''B'' ''put''],
           [entry ''A'' ''get'', entry ''B'' ''put'', entry ''C'' ''get'']]" "''B''" "Some ''put''"] good
    by (simp only: simp_thms)
  then obtain m where m: "transformDdgData
          [[entry ''B'' ''get'', entry ''B'' ''put''],
           [entry ''A'' ''get'', entry ''B'' ''put'', entry ''C'' ''get'']] ''B'' (Some ''put'') = Inr m"
    by (meson sum.exhaust)
  have "map focalIdx (paths m) = [1, 1]"
    using example_focalIdx by (simp only: m map_sum.simps sum.inject)
  with m 1 show ?thesis by (intro conjI exI [of _ m])
qed

section \<open>The visibility indices\<close>

lemma assigned_facts:
  assumes asg: "assigned 0 L Map.empty h" and d: "distinct L"
  shows "dom h = set L" and "inj_on h (set L)" and "h ` set L = Some ` {0 ..< length L}"
    and "\<forall>pe \<in> set L. \<forall>i. h pe = Some i \<longrightarrow> i < length L \<and> L ! i = pe"
proof -
  have at: "h (L ! i) = Some i" if "i < length L" for i
    using asg that by (simp add: assigned_def)
  have out: "h pe = None" if "pe \<notin> set L" for pe
    using asg that by (simp add: assigned_def)
  show "dom h = set L"
  proof (intro set_eqI iffI)
    fix pe assume "pe \<in> dom h"
    then show "pe \<in> set L" using out by (cases "pe \<in> set L") auto
  next
    fix pe assume "pe \<in> set L"
    then obtain i where "i < length L" "L ! i = pe" by (auto simp: in_set_conv_nth)
    then show "pe \<in> dom h" using at by auto
  qed
  show "inj_on h (set L)"
  proof (rule inj_onI)
    fix x y assume "x \<in> set L" "y \<in> set L" "h x = h y"
    then obtain i j where "i < length L" "L ! i = x" "j < length L" "L ! j = y"
      by (auto simp: in_set_conv_nth)
    then show "x = y" using at \<open>h x = h y\<close> by (metis option.inject)
  qed
  show "h ` set L = Some ` {0 ..< length L}"
  proof (intro set_eqI iffI)
    fix v assume "v \<in> h ` set L"
    then obtain i where "i < length L" "v = h (L ! i)" by (auto simp: in_set_conv_nth)
    then show "v \<in> Some ` {0 ..< length L}" using at by auto
  next
    fix v assume "v \<in> Some ` {0 ..< length L}"
    then obtain i where i: "i < length L" "v = Some i" by auto
    then have "v = h (L ! i)" using at by simp
    then show "v \<in> h ` set L" using i by auto
  qed
  show "\<forall>pe \<in> set L. \<forall>i. h pe = Some i \<longrightarrow> i < length L \<and> L ! i = pe"
  proof (intro ballI allI impI)
    fix pe i assume "pe \<in> set L" "h pe = Some i"
    then obtain j where "j < length L" "L ! j = pe" by (auto simp: in_set_conv_nth)
    then show "i < length L \<and> L ! i = pe" using at \<open>h pe = Some i\<close> by (metis option.inject)
  qed
qed

lemma map_of_enumerate:
  "map_of (enumerate 0 L) i = Some x \<longleftrightarrow> i < length L \<and> L ! i = x"
proof -
  have "map_of (enumerate 0 L) i = Some x \<longleftrightarrow> (i, x) \<in> set (enumerate 0 L)"
    by (rule map_of_eq_Some_iff) (simp add: map_fst_enumerate)
  then show ?thesis by (auto simp: in_set_enumerate_eq)
qed

lemma example_table:
  "map_sum id TDdgModel.visIdxToPathElem
     (transformDdgData
        [[entry ''A'' ''get'', entry ''B'' ''get'', entry ''C'' ''get'']] ''B'' None)
   = Inr [(0, \<lparr>memberIdx = 1, memberOf = 0, operation = (''B'', ''get'')\<rparr>),
          (1, \<lparr>memberIdx = 2, memberOf = 0, operation = (''C'', ''get'')\<rparr>),
          (2, \<lparr>memberIdx = 0, memberOf = 0, operation = (''A'', ''get'')\<rparr>)]"
  by code_simp

text \<open>
  C1. When every path of the payload has an entry that matches the focal selector,
  \<^const>\<open>transformDdgData\<close> returns a model in which: the PathElems of all paths are pairwise
  different and as many as there are payload entries; exactly these PathElems have a
  visibility index (each setter ran once, since a second run throws); different PathElems
  have different indices, and the indices are exactly \<open>0, \<dots>, N - 1\<close> for the number \<open>N\<close> of
  PathElems; the keys of the \<^verbatim>\<open>Map\<close> \<^verbatim>\<open>visIdxToPathElem\<close> are \<open>0, \<dots>, N - 1\<close> in this order, its
  values are the PathElems, its entry at position \<open>i\<close> has the key \<open>i\<close> and a PathElem whose
  index is \<open>i\<close>, and it maps an index \<open>i\<close> to a PathElem if and only if \<open>i\<close> is the visibility
  index of that PathElem; and the absolute value of the distance does not decrease with the
  visibility index, neither between two PathElems compared by their indices nor along the
  entries of \<^verbatim>\<open>visIdxToPathElem\<close>.
\<close>

theorem transformDdgData_visibility_indices:
  assumes "\<forall>path \<in> set payload. \<exists>entry \<in> set path. matchesFocal focalService focalOperation entry"
  shows "\<exists>m. transformDdgData payload focalService focalOperation = Inr m \<and>
    distinct (allElems (paths m)) \<and>
    length (allElems (paths m)) = sum_list (map length payload) \<and>
    dom (visibilityIdx m) = set (allElems (paths m)) \<and>
    inj_on (visibilityIdx m) (set (allElems (paths m))) \<and>
    visibilityIdx m ` set (allElems (paths m)) = Some ` {0 ..< length (allElems (paths m))} \<and>
    map fst (TDdgModel.visIdxToPathElem m) = [0 ..< length (allElems (paths m))] \<and>
    snd ` set (TDdgModel.visIdxToPathElem m) = set (allElems (paths m)) \<and>
    (\<forall>i < length (allElems (paths m)).
       fst (TDdgModel.visIdxToPathElem m ! i) = i \<and>
       visibilityIdx m (snd (TDdgModel.visIdxToPathElem m ! i)) = Some i) \<and>
    (\<forall>i pe. map_of (TDdgModel.visIdxToPathElem m) i = Some pe \<longleftrightarrow>
       visibilityIdx m pe = Some i) \<and>
    (\<forall>pe pe' i j. visibilityIdx m pe = Some i \<and> visibilityIdx m pe' = Some j \<and> i \<le> j \<longrightarrow>
       \<bar>distance (paths m) pe\<bar> \<le> \<bar>distance (paths m) pe'\<bar>) \<and>
    (\<forall>i j. i \<le> j \<and> j < length (allElems (paths m)) \<longrightarrow>
       \<bar>distance (paths m) (snd (TDdgModel.visIdxToPathElem m ! i))\<bar>
         \<le> \<bar>distance (paths m) (snd (TDdgModel.visIdxToPathElem m ! j))\<bar>)"
proof -
  have foc: "\<forall>es \<in> set payload. hasFocal focalService focalOperation es"
    using assms by (simp add: hasFocal_iff)
  have len: "\<forall>es \<in> set payload. length es \<le> Max (length ` set payload)" by simp
  from transform_ok [OF foc len] obtain m where
    H: "transformDdgData payload focalService focalOperation = Inr m \<and>
        paths m = pathsFrom focalService focalOperation 0 (sortPaths payload) \<and>
        groups (paths m) (TDdgModel.distanceToPathElems m) \<and>
        TDdgModel.visIdxToPathElem m
          = enumerate 0 (concat (map (tier (paths m)) (tierOrder (Max (length ` set payload))))) \<and>
        assigned 0 (concat (map (tier (paths m)) (tierOrder (Max (length ` set payload)))))
          Map.empty (visibilityIdx m) \<and>
        mset (concat (map (tier (paths m)) (tierOrder (Max (length ` set payload)))))
          = mset (allElems (paths m)) \<and>
        distinct (allElems (paths m))" ..
  let ?L = "concat (map (tier (paths m)) (tierOrder (Max (length ` set payload))))"
  let ?T = "TDdgModel.visIdxToPathElem m" and ?E = "allElems (paths m)"
  let ?h = "visibilityIdx m"
  note run = H [THEN conjunct1]
    and P = H [THEN conjunct2, THEN conjunct1]
    and T = H [THEN conjunct2, THEN conjunct2, THEN conjunct2, THEN conjunct1]
    and asg = H [THEN conjunct2, THEN conjunct2, THEN conjunct2, THEN conjunct2, THEN conjunct1]
    and ms = H [THEN conjunct2, THEN conjunct2, THEN conjunct2, THEN conjunct2, THEN conjunct2,
                THEN conjunct1]
    and dE = H [THEN conjunct2, THEN conjunct2, THEN conjunct2, THEN conjunct2, THEN conjunct2,
                THEN conjunct2]
  have dL: "distinct ?L" using ms dE by (metis mset_eq_imp_distinct_iff)
  have sL: "set ?L = set ?E" using ms by (rule mset_eq_setD)
  have lL: "length ?L = length ?E" using ms by (rule mset_eq_length)
  have lE: "length ?E = sum_list (map length payload)"
    by (simp add: P length_allElems_pathsFrom sum_length_sortPaths)
  note af = assigned_facts [OF asg dL]
  have at: "?h (?L ! i) = Some i" if "i < length ?L" for i
    using asg that by (simp add: assigned_def)
  have nthT: "?T ! i = (i, ?L ! i)" if "i < length ?L" for i
    unfolding T using that by (simp add: nth_enumerate_eq)
  have c1: "dom ?h = set ?E" using af(1) by (simp only: sL)
  have c2: "inj_on ?h (set ?E)" using af(2) by (simp only: sL)
  have c3: "?h ` set ?E = Some ` {0 ..< length ?E}" using af(3) by (simp only: sL lL)
  have c4: "map fst ?T = [0 ..< length ?E]"
    unfolding T by (simp add: map_fst_enumerate lL)
  have c5: "snd ` set ?T = set ?E"
  proof -
    have "snd ` set ?T = set (map snd ?T)" by simp
    also have "map snd ?T = ?L" unfolding T by (rule map_snd_enumerate)
    finally show ?thesis by (simp only: sL)
  qed
  have c6: "\<forall>i < length ?E. fst (?T ! i) = i \<and> ?h (snd (?T ! i)) = Some i"
    using nthT at by (simp add: lL [symmetric])
  have c7: "\<forall>i pe. map_of ?T i = Some pe \<longleftrightarrow> ?h pe = Some i"
  proof (intro allI iffI)
    fix i pe assume "map_of ?T i = Some pe"
    then have "i < length ?L \<and> ?L ! i = pe" unfolding T by (simp only: map_of_enumerate)
    then show "?h pe = Some i" using at by blast
  next
    fix i pe assume hp: "?h pe = Some i"
    then have "pe \<in> dom ?h" by blast
    then have "pe \<in> set ?L" by (simp only: af(1))
    then have "i < length ?L \<and> ?L ! i = pe" using af(4) hp by blast
    then show "map_of ?T i = Some pe" unfolding T by (simp only: map_of_enumerate)
  qed
  have srt: "sorted (map (\<lambda>pe. \<bar>distance (paths m) pe\<bar>) ?L)"
    by (rule sorted_abs_tiers)
  have mono: "\<bar>distance (paths m) (?L ! i)\<bar> \<le> \<bar>distance (paths m) (?L ! j)\<bar>"
    if "i \<le> j" "j < length ?L" for i j
    using srt that by (auto simp: sorted_iff_nth_mono)
  have c8: "\<forall>pe pe' i j. ?h pe = Some i \<and> ?h pe' = Some j \<and> i \<le> j \<longrightarrow>
       \<bar>distance (paths m) pe\<bar> \<le> \<bar>distance (paths m) pe'\<bar>"
  proof (intro allI impI)
    fix pe pe' i j assume a: "?h pe = Some i \<and> ?h pe' = Some j \<and> i \<le> j"
    then have "pe \<in> dom ?h" "pe' \<in> dom ?h" by blast+
    then have "pe \<in> set ?L" "pe' \<in> set ?L" by (simp_all only: af(1))
    then have "i < length ?L \<and> ?L ! i = pe" "j < length ?L \<and> ?L ! j = pe'"
      using af(4) a by blast+
    then show "\<bar>distance (paths m) pe\<bar> \<le> \<bar>distance (paths m) pe'\<bar>"
      using mono [of i j] a by blast
  qed
  have c9: "\<forall>i j. i \<le> j \<and> j < length ?E \<longrightarrow>
       \<bar>distance (paths m) (snd (?T ! i))\<bar> \<le> \<bar>distance (paths m) (snd (?T ! j))\<bar>"
  proof (intro allI impI)
    fix i j assume a: "i \<le> j \<and> j < length ?E"
    then have "i < length ?L" "j < length ?L" by (simp_all add: lL)
    then show "\<bar>distance (paths m) (snd (?T ! i))\<bar> \<le> \<bar>distance (paths m) (snd (?T ! j))\<bar>"
      using mono [of i j] a by (simp add: nthT)
  qed
  show ?thesis
    by (intro exI [of _ m] conjI run dE lE c1 c2 c3 c4 c5 c6 c7 c8 c9)
qed

theorem transformDdgData_visibility_indices_witness:
  "\<exists>m. transformDdgData
          [[entry ''A'' ''get'', entry ''B'' ''get'', entry ''C'' ''get''],
           [entry ''B'' ''get'', entry ''D'' ''get'']] ''B'' None = Inr m \<and>
        length (allElems (paths m)) = 5 \<and>
        map fst (TDdgModel.visIdxToPathElem m) = [0 ..< 5] \<and>
        visibilityIdx m ` set (allElems (paths m)) = Some ` {0 ..< 5} \<and>
        fst (TDdgModel.visIdxToPathElem m ! 4) = 4 \<and>
        visibilityIdx m (snd (TDdgModel.visIdxToPathElem m ! 4)) = Some 4 \<and>
        \<bar>distance (paths m) (snd (TDdgModel.visIdxToPathElem m ! 2))\<bar>
          \<le> \<bar>distance (paths m) (snd (TDdgModel.visIdxToPathElem m ! 4))\<bar>"
proof -
  let ?p = "[[entry ''A'' ''get'', entry ''B'' ''get'', entry ''C'' ''get''],
           [entry ''B'' ''get'', entry ''D'' ''get'']]"
  have h: "\<forall>path \<in> set ?p. \<exists>e \<in> set path. matchesFocal ''B'' None e"
    by (simp add: matchesFocal_def entry_def)
  have s: "sum_list (map length ?p) = 5" by simp
  from transformDdgData_visibility_indices [OF h] show ?thesis
  proof (elim exE conjE)
    fix m
    assume run: "transformDdgData ?p ''B'' None = Inr m"
      and len: "length (allElems (paths m)) = sum_list (map length ?p)"
      and img: "visibilityIdx m ` set (allElems (paths m))
                  = Some ` {0 ..< length (allElems (paths m))}"
      and keys: "map fst (TDdgModel.visIdxToPathElem m) = [0 ..< length (allElems (paths m))]"
      and at: "\<forall>i < length (allElems (paths m)).
         fst (TDdgModel.visIdxToPathElem m ! i) = i \<and>
         visibilityIdx m (snd (TDdgModel.visIdxToPathElem m ! i)) = Some i"
      and mono: "\<forall>i j. i \<le> j \<and> j < length (allElems (paths m)) \<longrightarrow>
         \<bar>distance (paths m) (snd (TDdgModel.visIdxToPathElem m ! i))\<bar>
           \<le> \<bar>distance (paths m) (snd (TDdgModel.visIdxToPathElem m ! j))\<bar>"
    have five: "length (allElems (paths m)) = 5" using len by (simp only: s)
    have a: "fst (TDdgModel.visIdxToPathElem m ! 4) = 4 \<and>
         visibilityIdx m (snd (TDdgModel.visIdxToPathElem m ! 4)) = Some 4"
      using at by (simp add: five)
    have b: "\<bar>distance (paths m) (snd (TDdgModel.visIdxToPathElem m ! 2))\<bar>
            \<le> \<bar>distance (paths m) (snd (TDdgModel.visIdxToPathElem m ! 4))\<bar>"
      using mono by (simp add: five)
    have img5: "visibilityIdx m ` set (allElems (paths m)) = Some ` {0 ..< 5}"
      using img by (simp only: five)
    have keys5: "map fst (TDdgModel.visIdxToPathElem m) = [0 ..< 5]"
      using keys by (simp only: five)
    show ?thesis
      by (intro exI [of _ m] conjI run five keys5 img5 a [THEN conjunct1] a [THEN conjunct2] b)
  qed
qed

section \<open>The order of the tiers\<close>

text \<open>
  C2, as amended. The claim has the tiers in the order 0, -1, 1, -2, 2, \<dots>; the loop takes
  distance \<open>- k\<close> and then distance \<open>k + 1\<close> in its iteration \<open>k\<close>, so the order is
  0, 1, -1, 2, -2, \<dots> (\<^const>\<open>tierOrder\<close>): at each magnitude the tier of the positive
  distance comes first. When every path has a focal entry and no path is longer than \<open>n\<close>,
  the values of \<^verbatim>\<open>visIdxToPathElem\<close> are the concatenation of the tiers in that order, each
  tier (\<^const>\<open>tier\<close>) being the PathElems of its distance in the order of the sorted paths,
  under the keys 0, 1, 2, \<dots>, and the PathElem at position \<open>i\<close> of that concatenation has the
  visibility index \<open>i\<close>: the PathElems of a tier have consecutive indices, before every
  PathElem of a later tier.
\<close>

theorem transformDdgData_tier_order:
  assumes "\<forall>path \<in> set payload. \<exists>entry \<in> set path. matchesFocal focalService focalOperation entry"
    and "\<forall>path \<in> set payload. length path \<le> n"
  shows "\<exists>m. transformDdgData payload focalService focalOperation = Inr m \<and>
    TDdgModel.visIdxToPathElem m = enumerate 0 (concat (map (tier (paths m)) (tierOrder n))) \<and>
    map snd (TDdgModel.visIdxToPathElem m) = concat (map (tier (paths m)) (tierOrder n)) \<and>
    (\<forall>i < length (TDdgModel.visIdxToPathElem m).
       visibilityIdx m (snd (TDdgModel.visIdxToPathElem m ! i)) = Some i) \<and>
    (\<forall>i < length (concat (map (tier (paths m)) (tierOrder n))).
       visibilityIdx m (concat (map (tier (paths m)) (tierOrder n)) ! i) = Some i)"
proof -
  have foc: "\<forall>es \<in> set payload. hasFocal focalService focalOperation es"
    using assms(1) by (simp add: hasFocal_iff)
  from transform_ok [OF foc assms(2)] obtain m where
    H: "transformDdgData payload focalService focalOperation = Inr m \<and>
        paths m = pathsFrom focalService focalOperation 0 (sortPaths payload) \<and>
        groups (paths m) (TDdgModel.distanceToPathElems m) \<and>
        TDdgModel.visIdxToPathElem m = enumerate 0 (concat (map (tier (paths m)) (tierOrder n))) \<and>
        assigned 0 (concat (map (tier (paths m)) (tierOrder n))) Map.empty (visibilityIdx m) \<and>
        mset (concat (map (tier (paths m)) (tierOrder n))) = mset (allElems (paths m)) \<and>
        distinct (allElems (paths m))" ..
  let ?L = "concat (map (tier (paths m)) (tierOrder n))"
  note run = H [THEN conjunct1]
    and T = H [THEN conjunct2, THEN conjunct2, THEN conjunct2, THEN conjunct1]
    and asg = H [THEN conjunct2, THEN conjunct2, THEN conjunct2, THEN conjunct2, THEN conjunct1]
  have at: "\<forall>i < length ?L. visibilityIdx m (?L ! i) = Some i"
    using asg by (simp add: assigned_def)
  have vals: "map snd (TDdgModel.visIdxToPathElem m) = ?L"
    unfolding T by (rule map_snd_enumerate)
  have at': "\<forall>i < length (TDdgModel.visIdxToPathElem m).
       visibilityIdx m (snd (TDdgModel.visIdxToPathElem m ! i)) = Some i"
    using at unfolding T by (simp add: nth_enumerate_eq)
  show ?thesis by (intro exI [of _ m] conjI run T vals at' at)
qed

lemma tierOrder_3: "tierOrder 3 = [0, 1, - 1, 2, - 2, 3]"
  by (simp add: eval_nat_numeral)

theorem transformDdgData_tier_order_witness:
  "tierOrder 3 = [0, 1, - 1, 2, - 2, 3] \<and>
   (\<exists>m. transformDdgData
          [[entry ''A'' ''get'', entry ''B'' ''get'', entry ''C'' ''get'']] ''B'' None = Inr m \<and>
        map snd (TDdgModel.visIdxToPathElem m) = concat (map (tier (paths m)) (tierOrder 3)) \<and>
        visibilityIdx m (snd (TDdgModel.visIdxToPathElem m ! 0)) = Some 0)"
  (is "_ \<and> ?P")
proof -
  let ?p = "[[entry ''A'' ''get'', entry ''B'' ''get'', entry ''C'' ''get'']]"
  have h: "\<forall>path \<in> set ?p. \<exists>e \<in> set path. matchesFocal ''B'' None e"
    by (simp add: matchesFocal_def entry_def)
  have l: "\<forall>path \<in> set ?p. length path \<le> 3"
    by simp
  from transformDdgData_tier_order [OF h l] have ?P
  proof (elim exE conjE)
    fix m
    assume run: "transformDdgData ?p ''B'' None = Inr m"
      and ord: "map snd (TDdgModel.visIdxToPathElem m)
                  = concat (map (tier (paths m)) (tierOrder 3))"
      and at: "\<forall>i < length (TDdgModel.visIdxToPathElem m).
         visibilityIdx m (snd (TDdgModel.visIdxToPathElem m ! i)) = Some i"
    have "length (TDdgModel.visIdxToPathElem m) = 3"
      using example_table by (simp only: run map_sum.simps sum.inject) simp
    then have z: "visibilityIdx m (snd (TDdgModel.visIdxToPathElem m ! 0)) = Some 0"
      using at by simp
    show ?P by (intro exI [of _ m] conjI run ord z)
  qed
  with tierOrder_3 show ?thesis by (intro conjI)
qed

theorem transformDdgData_tier_order_counterexample:
  "map_sum id
     (\<lambda>m. map (\<lambda>kv. (fst kv, fst (PathElem.operation (snd kv)), distance (paths m) (snd kv),
                     visibilityIdx m (snd kv)))
            (TDdgModel.visIdxToPathElem m))
     (transformDdgData
        [[entry ''A'' ''get'', entry ''B'' ''get'', entry ''C'' ''get'']] ''B'' None)
   = Inr [(0, ''B'', 0, Some 0), (1, ''C'', 1, Some 1), (2, ''A'', - 1, Some 2)]"
  by code_simp

section \<open>Payloads that are permutations of one another\<close>

lemma mset_swap: "mset [a, b] = mset [b, a]"
  by (simp add: add_mset_commute)

lemma example_collision_key:
  "pathCompareValue [entry ''a'' ''x,y'', entry ''z'' ''o'']
     = pathCompareValue [entry ''a'' ''x'', entry ''y,z'' ''o'']"
  by code_simp

lemma example_collision_1:
  "map_sum id TDdgModel.visIdxToPathElem
     (transformDdgData
        [[entry ''a'' ''x,y'', entry ''z'' ''o''], [entry ''a'' ''x'', entry ''y,z'' ''o'']]
        ''a'' None)
   = Inr [(0, \<lparr>memberIdx = 0, memberOf = 0, operation = (''a'', ''x,y'')\<rparr>),
          (1, \<lparr>memberIdx = 0, memberOf = 1, operation = (''a'', ''x'')\<rparr>),
          (2, \<lparr>memberIdx = 1, memberOf = 0, operation = (''z'', ''o'')\<rparr>),
          (3, \<lparr>memberIdx = 1, memberOf = 1, operation = (''y,z'', ''o'')\<rparr>)]"
  by code_simp

lemma example_collision_2:
  "map_sum id TDdgModel.visIdxToPathElem
     (transformDdgData
        [[entry ''a'' ''x'', entry ''y,z'' ''o''], [entry ''a'' ''x,y'', entry ''z'' ''o'']]
        ''a'' None)
   = Inr [(0, \<lparr>memberIdx = 0, memberOf = 0, operation = (''a'', ''x'')\<rparr>),
          (1, \<lparr>memberIdx = 0, memberOf = 1, operation = (''a'', ''x,y'')\<rparr>),
          (2, \<lparr>memberIdx = 1, memberOf = 0, operation = (''y,z'', ''o'')\<rparr>),
          (3, \<lparr>memberIdx = 1, memberOf = 1, operation = (''z'', ''o'')\<rparr>)]"
  by code_simp

text \<open>
  C3. The claim is that two payloads that are permutations of one another have the same
  transform. The comparator of the sort compares the strings \<^const>\<open>pathCompareValue\<close> of two
  paths, in which the entries are joined with a comma and nothing escapes a comma of a name,
  and returns 0 when the strings are equal; the sort is stable. The paths
  \<open>[a/''x,y'', z/o]\<close> and \<open>[a/x, ''y,z''/o]\<close> are different and have the same string, so each
  of the two payloads made of them keeps its own order of the paths: the PathElem with the
  visibility index 0 is the one of the operation \<open>x,y\<close> for one payload and the one of the
  operation \<open>x\<close> for the other, and the two results of \<^const>\<open>transformDdgData\<close> differ.
\<close>

theorem transformDdgData_permutation_divergence:
  "mset [[entry ''a'' ''x,y'', entry ''z'' ''o''], [entry ''a'' ''x'', entry ''y,z'' ''o'']]
     = mset [[entry ''a'' ''x'', entry ''y,z'' ''o''], [entry ''a'' ''x,y'', entry ''z'' ''o'']] \<and>
   pathCompareValue [entry ''a'' ''x,y'', entry ''z'' ''o'']
     = pathCompareValue [entry ''a'' ''x'', entry ''y,z'' ''o''] \<and>
   map_sum id (\<lambda>m. map_of (TDdgModel.visIdxToPathElem m) 0)
     (transformDdgData
        [[entry ''a'' ''x,y'', entry ''z'' ''o''], [entry ''a'' ''x'', entry ''y,z'' ''o'']]
        ''a'' None)
     = Inr (Some \<lparr>memberIdx = 0, memberOf = 0, operation = (''a'', ''x,y'')\<rparr>) \<and>
   map_sum id (\<lambda>m. map_of (TDdgModel.visIdxToPathElem m) 0)
     (transformDdgData
        [[entry ''a'' ''x'', entry ''y,z'' ''o''], [entry ''a'' ''x,y'', entry ''z'' ''o'']]
        ''a'' None)
     = Inr (Some \<lparr>memberIdx = 0, memberOf = 0, operation = (''a'', ''x'')\<rparr>) \<and>
   transformDdgData
     [[entry ''a'' ''x,y'', entry ''z'' ''o''], [entry ''a'' ''x'', entry ''y,z'' ''o'']] ''a'' None
   \<noteq> transformDdgData
     [[entry ''a'' ''x'', entry ''y,z'' ''o''], [entry ''a'' ''x,y'', entry ''z'' ''o'']] ''a'' None"
proof -
  let ?r1 = "transformDdgData
     [[entry ''a'' ''x,y'', entry ''z'' ''o''], [entry ''a'' ''x'', entry ''y,z'' ''o'']] ''a'' None"
  let ?r2 = "transformDdgData
     [[entry ''a'' ''x'', entry ''y,z'' ''o''], [entry ''a'' ''x,y'', entry ''z'' ''o'']] ''a'' None"
  have ne: "map_sum id TDdgModel.visIdxToPathElem ?r1 \<noteq> map_sum id TDdgModel.visIdxToPathElem ?r2"
    unfolding example_collision_1 example_collision_2 by simp
  have d: "?r1 \<noteq> ?r2"
    using ne by (rule contrapos_nn) (erule arg_cong)
  have a: "map_sum id (\<lambda>m. map_of (TDdgModel.visIdxToPathElem m) 0) ?r1
     = Inr (Some \<lparr>memberIdx = 0, memberOf = 0, operation = (''a'', ''x,y'')\<rparr>)"
    using example_collision_1 by (cases ?r1) simp_all
  have b: "map_sum id (\<lambda>m. map_of (TDdgModel.visIdxToPathElem m) 0) ?r2
     = Inr (Some \<lparr>memberIdx = 0, memberOf = 0, operation = (''a'', ''x'')\<rparr>)"
    using example_collision_2 by (cases ?r2) simp_all
  show ?thesis by (intro conjI mset_swap example_collision_key a b d)
qed

section \<open>The write-once visibility index\<close>

text \<open>
  C8. For every PathElem and every store of visibility indices: reading the index before it
  is set throws; setting it when it is already set throws and leaves the store, and so the
  stored index, unchanged, so that a later read still returns the old index; a set on an
  unset index succeeds, a read after it returns exactly the value set, and no other
  PathElem's index changes.
\<close>

theorem visibilityIdx_write_once:
  "(h pe = None \<longrightarrow> get_visibilityIdx pe h = Inl VisibilityIndexUnset) \<and>
   (h pe = Some old \<longrightarrow>
      set_visibilityIdx pe v h = (Inl VisibilityIndexAlreadySet, h) \<and>
      get_visibilityIdx pe (snd (set_visibilityIdx pe v h)) = Inr old) \<and>
   (h pe = None \<longrightarrow>
      fst (set_visibilityIdx pe v h) = Inr () \<and>
      get_visibilityIdx pe (snd (set_visibilityIdx pe v h)) = Inr v \<and>
      (\<forall>q. q \<noteq> pe \<longrightarrow> snd (set_visibilityIdx pe v h) q = h q))"
  by (simp add: set_visibilityIdx_def get_visibilityIdx_def)

theorem visibilityIdx_write_once_witness:
  "get_visibilityIdx \<lparr>memberIdx = 3, memberOf = 0, operation = ('''', '''')\<rparr> Map.empty
     = Inl VisibilityIndexUnset \<and>
   fst (set_visibilityIdx \<lparr>memberIdx = 3, memberOf = 0, operation = ('''', '''')\<rparr> 105 Map.empty)
     = Inr () \<and>
   get_visibilityIdx \<lparr>memberIdx = 3, memberOf = 0, operation = ('''', '''')\<rparr>
     (snd (set_visibilityIdx \<lparr>memberIdx = 3, memberOf = 0, operation = ('''', '''')\<rparr> 105 Map.empty))
     = Inr 105 \<and>
   fst (set_visibilityIdx \<lparr>memberIdx = 3, memberOf = 0, operation = ('''', '''')\<rparr> 7
     [\<lparr>memberIdx = 3, memberOf = 0, operation = ('''', '''')\<rparr> \<mapsto> 105])
     = Inl VisibilityIndexAlreadySet \<and>
   get_visibilityIdx \<lparr>memberIdx = 3, memberOf = 0, operation = ('''', '''')\<rparr>
     (snd (set_visibilityIdx \<lparr>memberIdx = 3, memberOf = 0, operation = ('''', '''')\<rparr> 7
       [\<lparr>memberIdx = 3, memberOf = 0, operation = ('''', '''')\<rparr> \<mapsto> 105]))
     = Inr 105"
  using
    visibilityIdx_write_once [of Map.empty
      "\<lparr>memberIdx = 3, memberOf = 0, operation = ('''', '''')\<rparr>" 0 105]
    visibilityIdx_write_once [of
      "[\<lparr>memberIdx = 3, memberOf = 0, operation = ('''', '''')\<rparr> \<mapsto> 105]"
      "\<lparr>memberIdx = 3, memberOf = 0, operation = ('''', '''')\<rparr>" 105 7]
  by (simp add: get_visibilityIdx_def)
section \<open>The constructor of the graph model\<close>


lemma graphInv_vertex:
  assumes "graphInv hasher getEdgeId heap st" and "gs_vertices st k = Some v"
  shows "key v = k" and "gs_vertexToPathElems st v \<noteq> None"
  using assms unfolding graphInv_def by blast+

lemma graphInv_elem:
  assumes "graphInv hasher getEdgeId heap st" and "gs_pathElemToVertex st pe = Some v"
  shows "gs_vertices st (hasher pe) = Some v"
  using assms unfolding graphInv_def by blast

lemma linkVertex_ok:
  assumes "graphInv hasher getEdgeId heap st"
  shows "\<exists>v st1. linkVertex hasher showOp0 heap st pe = Inr (v, st1) \<and>
           key v = hasher pe \<and>
           gs_vertices st1 (hasher pe) = Some v \<and>
           (\<forall>k w. gs_vertices st1 k = Some w \<longrightarrow> key w = k \<and> gs_vertexToPathElems st1 w \<noteq> None) \<and>
           (\<forall>k w. gs_vertices st k = Some w \<longrightarrow> gs_vertices st1 k = Some w) \<and>
           gs_pathElemToVertex st1 = (gs_pathElemToVertex st)(pe \<mapsto> v) \<and>
           gs_pathElemToEdge st1 = gs_pathElemToEdge st \<and>
           gs_edgesById st1 = gs_edgesById st"
proof (cases "gs_vertices st (hasher pe)")
  case None
  have old: "key w = k \<and> gs_vertexToPathElems st w \<noteq> None" if "gs_vertices st k = Some w" for k w
    using graphInv_vertex [OF assms that] by simp
  show ?thesis
    using None old by (simp add: linkVertex_def Let_def)
next
  case (Some v)
  have k: "key v = hasher pe" using graphInv_vertex(1) [OF assms Some] .
  obtain l where l: "gs_vertexToPathElems st v = Some l"
    using graphInv_vertex(2) [OF assms Some] by blast
  have old: "key w = k \<and> gs_vertexToPathElems st w \<noteq> None" if "gs_vertices st k = Some w" for k w
    using graphInv_vertex [OF assms that] by simp
  show ?thesis
    using Some l k old by (simp add: linkVertex_def Let_def)
qed


lemma addPathElem_ok:
  assumes inv: "graphInv hasher getEdgeId heap st"
    and con: "case focalSideNeighbor heap pe of None \<Rightarrow> True
              | Some n \<Rightarrow> n \<in> insert pe (dom (gs_pathElemToVertex st))"
  shows "\<exists>st'. addPathElem hasher getEdgeId showOp0 heap st pe = Inr st' \<and>
           graphInv hasher getEdgeId heap st' \<and>
           dom (gs_pathElemToVertex st') = insert pe (dom (gs_pathElemToVertex st))"
proof -
  from linkVertex_ok [OF inv, of showOp0 pe] obtain v st1 where
    link: "linkVertex hasher showOp0 heap st pe = Inr (v, st1)"
    and kv: "key v = hasher pe"
    and vv: "gs_vertices st1 (hasher pe) = Some v"
    and V1: "\<And>k w. gs_vertices st1 k = Some w \<Longrightarrow> key w = k \<and> gs_vertexToPathElems st1 w \<noteq> None"
    and mono: "\<And>k w. gs_vertices st k = Some w \<Longrightarrow> gs_vertices st1 k = Some w"
    and p2v: "gs_pathElemToVertex st1 = (gs_pathElemToVertex st)(pe \<mapsto> v)"
    and p2e: "gs_pathElemToEdge st1 = gs_pathElemToEdge st"
    and ebi: "gs_edgesById st1 = gs_edgesById st"
    by blast
  have P1: "gs_vertices st1 (hasher q) = Some w" if "gs_pathElemToVertex st1 q = Some w" for q w
  proof (cases "q = pe")
    case True
    then show ?thesis using that vv by (simp add: p2v)
  next
    case False
    then have "gs_pathElemToVertex st q = Some w" using that by (simp add: p2v)
    then show ?thesis using graphInv_elem [OF inv] mono by blast
  qed
  have I1: "getEdgeId (from' e) (to' e) = i" if "gs_edgesById st1 i = Some e" for i e
    using that inv by (simp add: ebi graphInv_def)
  have E1: "\<exists>n. focalSideNeighbor heap q = Some n \<and>
              getEdgeId (from' e) (to' e)
                = getEdgeId (fst (edgeEnds hasher heap q n)) (snd (edgeEnds hasher heap q n))"
    if "gs_pathElemToEdge st1 q = Some e" for q e
    using that inv by (simp add: p2e graphInv_def)
  have D1: "gs_pathElemToEdge st1 q \<noteq> None"
    if "q \<noteq> pe" "gs_pathElemToVertex st1 q \<noteq> None" "focalSideNeighbor heap q = Some n" for q n
    using that inv by (simp add: p2e p2v graphInv_def)
  have dom1: "dom (gs_pathElemToVertex st1) = insert pe (dom (gs_pathElemToVertex st))"
    by (simp add: p2v)
  show ?thesis
  proof (cases "focalSideNeighbor heap pe")
    case None
    have "graphInv hasher getEdgeId heap st1"
      unfolding graphInv_def
    proof (intro conjI allI impI)
      fix k w assume "gs_vertices st1 k = Some w"
      then show "key w = k" "gs_vertexToPathElems st1 w \<noteq> None" using V1 by simp_all
    next
      fix q w assume "gs_pathElemToVertex st1 q = Some w"
      then show "gs_vertices st1 (hasher q) = Some w" by (rule P1)
    next
      fix i e assume "gs_edgesById st1 i = Some e"
      then show "getEdgeId (from' e) (to' e) = i" by (rule I1)
    next
      fix q e assume "gs_pathElemToEdge st1 q = Some e"
      then show "\<exists>n. focalSideNeighbor heap q = Some n \<and>
              getEdgeId (from' e) (to' e)
                = getEdgeId (fst (edgeEnds hasher heap q n)) (snd (edgeEnds hasher heap q n))"
        by (rule E1)
    next
      fix q m assume a: "gs_pathElemToVertex st1 q \<noteq> None \<and> focalSideNeighbor heap q = Some m"
      then have "q \<noteq> pe" using None by auto
      then show "gs_pathElemToEdge st1 q \<noteq> None" using D1 a by blast
    qed
    then show ?thesis using None link dom1 by (simp add: addPathElem_def connectVertex_def)
  next
    case (Some n)
    then have "n \<in> insert pe (dom (gs_pathElemToVertex st))" using con by simp
    then have "gs_pathElemToVertex st1 n \<noteq> None" by (cases "n = pe") (auto simp: p2v)
    then obtain cv where cv: "gs_pathElemToVertex st1 n = Some cv" by blast
    have kcv: "key cv = hasher n" using P1 [OF cv] V1 by blast
    let ?f = "if distance heap pe > 0 then key cv else key v"
    let ?t = "if distance heap pe > 0 then key v else key cv"
    have ends: "?f = fst (edgeEnds hasher heap pe n)" "?t = snd (edgeEnds hasher heap pe n)"
      by (simp_all add: edgeEnds_def kv kcv)
    show ?thesis
    proof (cases "gs_edgesById st1 (getEdgeId ?f ?t)")
      case None
      let ?e = "\<lparr>from' = ?f, to' = ?t\<rparr>"
      let ?st = "st1\<lparr>gs_edgesById := (gs_edgesById st1)(getEdgeId ?f ?t \<mapsto> ?e),
                     gs_pathElemToEdge := (gs_pathElemToEdge st1)(pe \<mapsto> ?e)\<rparr>"
      have run: "addPathElem hasher getEdgeId showOp0 heap st pe = Inr ?st"
        using link Some cv None by (simp add: addPathElem_def connectVertex_def Let_def)
      have "graphInv hasher getEdgeId heap ?st"
        unfolding graphInv_def
      proof (intro conjI allI impI)
        fix k w assume "gs_vertices ?st k = Some w"
        then show "key w = k" "gs_vertexToPathElems ?st w \<noteq> None" using V1 by simp_all
      next
        fix q w assume "gs_pathElemToVertex ?st q = Some w"
        then show "gs_vertices ?st (hasher q) = Some w" using P1 by simp
      next
        fix i e assume "gs_edgesById ?st i = Some e"
        then show "getEdgeId (from' e) (to' e) = i"
          using I1 by (cases "i = getEdgeId ?f ?t") auto
      next
        fix q e assume "gs_pathElemToEdge ?st q = Some e"
        then show "\<exists>n. focalSideNeighbor heap q = Some n \<and>
              getEdgeId (from' e) (to' e)
                = getEdgeId (fst (edgeEnds hasher heap q n)) (snd (edgeEnds hasher heap q n))"
          using E1 Some ends by (cases "q = pe") auto
      next
        fix q m assume "gs_pathElemToVertex ?st q \<noteq> None \<and> focalSideNeighbor heap q = Some m"
        then show "gs_pathElemToEdge ?st q \<noteq> None"
          using D1 by (cases "q = pe") auto
      qed
      then show ?thesis using run dom1 by simp
    next
      case (Some ex)
      let ?st = "st1\<lparr>gs_pathElemToEdge := (gs_pathElemToEdge st1)(pe \<mapsto> ex)\<rparr>"
      have run: "addPathElem hasher getEdgeId showOp0 heap st pe = Inr ?st"
        using link \<open>focalSideNeighbor heap pe = Some n\<close> cv Some
        by (simp add: addPathElem_def connectVertex_def Let_def)
      have exid: "getEdgeId (from' ex) (to' ex) = getEdgeId ?f ?t" using I1 [OF Some] .
      have "graphInv hasher getEdgeId heap ?st"
        unfolding graphInv_def
      proof (intro conjI allI impI)
        fix k w assume "gs_vertices ?st k = Some w"
        then show "key w = k" "gs_vertexToPathElems ?st w \<noteq> None" using V1 by simp_all
      next
        fix q w assume "gs_pathElemToVertex ?st q = Some w"
        then show "gs_vertices ?st (hasher q) = Some w" using P1 by simp
      next
        fix i e assume "gs_edgesById ?st i = Some e"
        then show "getEdgeId (from' e) (to' e) = i" using I1 by simp
      next
        fix q e assume "gs_pathElemToEdge ?st q = Some e"
        then show "\<exists>n. focalSideNeighbor heap q = Some n \<and>
              getEdgeId (from' e) (to' e)
                = getEdgeId (fst (edgeEnds hasher heap q n)) (snd (edgeEnds hasher heap q n))"
          using E1 \<open>focalSideNeighbor heap pe = Some n\<close> ends exid by (cases "q = pe") auto
      next
        fix q m assume "gs_pathElemToVertex ?st q \<noteq> None \<and> focalSideNeighbor heap q = Some m"
        then show "gs_pathElemToEdge ?st q \<noteq> None"
          using D1 by (cases "q = pe") auto
      qed
      then show ?thesis using run dom1 by simp
    qed
  qed
qed

lemma addPathElem_fail:
  assumes inv: "graphInv hasher getEdgeId heap st"
    and con: "focalSideNeighbor heap pe = Some n" "n \<notin> insert pe (dom (gs_pathElemToVertex st))"
  shows "addPathElem hasher getEdgeId showOp0 heap st pe = Inl DisconnectedPathElem"
proof -
  from linkVertex_ok [OF inv, of showOp0 pe] obtain v st1 where
    link: "linkVertex hasher showOp0 heap st pe = Inr (v, st1)"
    and p2v: "gs_pathElemToVertex st1 = (gs_pathElemToVertex st)(pe \<mapsto> v)"
    by blast
  have "gs_pathElemToVertex st1 n = None" using con(2) by (auto simp: p2v)
  then show ?thesis using link con(1) by (simp add: addPathElem_def connectVertex_def)
qed



lemma forEach_addPathElem_ok:
  assumes "graphInv hasher getEdgeId heap st" and "connected heap (dom (gs_pathElemToVertex st)) xs"
  shows "\<exists>st'. forEach_addPathElem hasher getEdgeId showOp0 heap st xs = Inr st' \<and>
           graphInv hasher getEdgeId heap st' \<and>
           dom (gs_pathElemToVertex st') = dom (gs_pathElemToVertex st) \<union> set xs"
  using assms
proof (induction xs arbitrary: st)
  case Nil
  then show ?case by simp
next
  case (Cons pe xs)
  have con: "case focalSideNeighbor heap pe of None \<Rightarrow> True
             | Some n \<Rightarrow> n \<in> insert pe (dom (gs_pathElemToVertex st))"
    using Cons.prems(2) by simp
  from addPathElem_ok [OF Cons.prems(1) con, of showOp0] obtain st1 where
    step: "addPathElem hasher getEdgeId showOp0 heap st pe = Inr st1"
    and inv1: "graphInv hasher getEdgeId heap st1"
    and dom1: "dom (gs_pathElemToVertex st1) = insert pe (dom (gs_pathElemToVertex st))"
    by blast
  have "connected heap (dom (gs_pathElemToVertex st1)) xs"
    using Cons.prems(2) by (simp add: dom1)
  from Cons.IH [OF inv1 this] show ?case by (auto simp: step dom1)
qed

lemma forEach_addPathElem_fail:
  assumes "graphInv hasher getEdgeId heap st" and "\<not> connected heap (dom (gs_pathElemToVertex st)) xs"
  shows "forEach_addPathElem hasher getEdgeId showOp0 heap st xs = Inl DisconnectedPathElem"
  using assms
proof (induction xs arbitrary: st)
  case Nil
  then show ?case by simp
next
  case (Cons pe xs)
  show ?case
  proof (cases "case focalSideNeighbor heap pe of None \<Rightarrow> True
             | Some n \<Rightarrow> n \<in> insert pe (dom (gs_pathElemToVertex st))")
    case True
    from addPathElem_ok [OF Cons.prems(1) True, of showOp0] obtain st1 where
      step: "addPathElem hasher getEdgeId showOp0 heap st pe = Inr st1"
      and inv1: "graphInv hasher getEdgeId heap st1"
      and dom1: "dom (gs_pathElemToVertex st1) = insert pe (dom (gs_pathElemToVertex st))"
      by blast
    have "\<not> connected heap (dom (gs_pathElemToVertex st1)) xs"
      using Cons.prems(2) True by (simp add: dom1)
    from Cons.IH [OF inv1 this] show ?thesis by (simp add: step)
  next
    case False
    then obtain n where "focalSideNeighbor heap pe = Some n"
      "n \<notin> insert pe (dom (gs_pathElemToVertex st))"
      by (cases "focalSideNeighbor heap pe") auto
    from addPathElem_fail [OF Cons.prems(1) this] show ?thesis by simp
  qed
qed

lemma connected_iff:
  "connected heap seen xs \<longleftrightarrow>
     (\<forall>i < length xs. \<forall>n. focalSideNeighbor heap (xs ! i) = Some n \<longrightarrow>
        n \<in> seen \<union> set (take (Suc i) xs))"
proof (induction xs arbitrary: seen)
  case Nil
  then show ?case by simp
next
  case (Cons pe xs)
  have "(\<forall>i < length (pe # xs). \<forall>n. focalSideNeighbor heap ((pe # xs) ! i) = Some n \<longrightarrow>
            n \<in> seen \<union> set (take (Suc i) (pe # xs)))
        \<longleftrightarrow> (\<forall>n. focalSideNeighbor heap pe = Some n \<longrightarrow> n \<in> insert pe seen) \<and>
            (\<forall>i < length xs. \<forall>n. focalSideNeighbor heap (xs ! i) = Some n \<longrightarrow>
               n \<in> insert pe seen \<union> set (take (Suc i) xs))"
    (is "?L \<longleftrightarrow> ?A \<and> ?B")
  proof
    assume L: ?L
    have ?A using L [rule_format, of 0] by auto
    moreover have ?B
    proof (intro allI impI)
      fix i n assume "i < length xs" "focalSideNeighbor heap (xs ! i) = Some n"
      then show "n \<in> insert pe seen \<union> set (take (Suc i) xs)"
        using L [rule_format, of "Suc i" n] by auto
    qed
    ultimately show "?A \<and> ?B" ..
  next
    assume AB: "?A \<and> ?B"
    show ?L
    proof (intro allI impI)
      fix i n assume i: "i < length (pe # xs)" and n: "focalSideNeighbor heap ((pe # xs) ! i) = Some n"
      show "n \<in> seen \<union> set (take (Suc i) (pe # xs))"
      proof (cases i)
        case 0
        then show ?thesis using AB n by auto
      next
        case (Suc j)
        then have "n \<in> insert pe seen \<union> set (take (Suc j) xs)" using AB i n by auto
        then show ?thesis using Suc by auto
      qed
    qed
  qed
  then show ?case by (simp add: Cons.IH split: option.split)
qed

lemma graphInv_empty:
  "graphInv hasher getEdgeId heap
     \<lparr>gs_vertices = Map.empty, gs_vertexToPathElems = Map.empty,
      gs_pathElemToVertex = Map.empty, gs_pathElemToEdge = Map.empty,
      gs_edgesById = Map.empty\<rparr>"
  by (simp add: graphInv_def)

lemma newGraphModel_ok:
  assumes "connected (paths m) {} (TDdgModel.visIdxToPathElem m)"
  shows "\<exists>st. graphInv (gh density0 showOp0 (paths m)) getEdgeId (paths m) st \<and>
           dom (gs_pathElemToVertex st) = set (TDdgModel.visIdxToPathElem m) \<and>
           newGraphModel gh getEdgeId m density0 showOp0 =
             Inr \<lparr>density = density0,
                  distanceToPathElems = TDdgModel.distanceToPathElems m,
                  pathElemToEdge = gs_pathElemToEdge st,
                  pathElemToVertex = gs_pathElemToVertex st,
                  showOp = showOp0,
                  vertexToPathElems = gs_vertexToPathElems st,
                  vertices = gs_vertices st,
                  visIdxToPathElem = TDdgModel.visIdxToPathElem m\<rparr>"
proof -
  let ?st0 = "\<lparr>gs_vertices = Map.empty, gs_vertexToPathElems = Map.empty,
      gs_pathElemToVertex = Map.empty, gs_pathElemToEdge = Map.empty,
      gs_edgesById = Map.empty :: 'a \<rightharpoonup> TEdge\<rparr>"
  have c: "connected (paths m) (dom (gs_pathElemToVertex ?st0)) (TDdgModel.visIdxToPathElem m)"
    using assms by simp
  from forEach_addPathElem_ok [OF graphInv_empty c, of "gh density0 showOp0 (paths m)" getEdgeId showOp0]
  obtain st where "forEach_addPathElem (gh density0 showOp0 (paths m)) getEdgeId showOp0 (paths m) ?st0
        (TDdgModel.visIdxToPathElem m) = Inr st"
    "graphInv (gh density0 showOp0 (paths m)) getEdgeId (paths m) st"
    "dom (gs_pathElemToVertex st) = set (TDdgModel.visIdxToPathElem m)"
    by auto
  then show ?thesis by (auto simp: newGraphModel_def)
qed

lemma newGraphModel_fail:
  assumes "\<not> connected (paths m) {} (TDdgModel.visIdxToPathElem m)"
  shows "newGraphModel gh getEdgeId m density0 showOp0 = Inl DisconnectedPathElem"
proof -
  let ?st0 = "\<lparr>gs_vertices = Map.empty, gs_vertexToPathElems = Map.empty,
      gs_pathElemToVertex = Map.empty, gs_pathElemToEdge = Map.empty,
      gs_edgesById = Map.empty :: 'a \<rightharpoonup> TEdge\<rparr>"
  have c: "\<not> connected (paths m) (dom (gs_pathElemToVertex ?st0)) (TDdgModel.visIdxToPathElem m)"
    using assms by simp
  from forEach_addPathElem_fail [OF graphInv_empty c, of "gh density0 showOp0 (paths m)" getEdgeId showOp0]
  show ?thesis by (simp add: newGraphModel_def)
qed



lemma set_setAdd: "set (setAdd x xs) = insert x (set xs)"
  by (auto simp: setAdd_def)

lemma distinct_setAdd: "distinct xs \<Longrightarrow> distinct (setAdd x xs)"
  by (simp add: setAdd_def)

lemma collectVisible_ok:
  assumes "\<forall>pe \<in> set es. pathElemToVertex g pe \<noteq> None"
  shows "\<exists>r. collectVisible g acc es = Inr r \<and>
           set (edges r) = set (edges acc) \<union> {e. \<exists>pe \<in> set es. pathElemToEdge g pe = Some e} \<and>
           set (visible.vertices r)
             = set (visible.vertices acc) \<union> {v. \<exists>pe \<in> set es. pathElemToVertex g pe = Some v} \<and>
           (distinct (edges acc) \<longrightarrow> distinct (edges r)) \<and>
           (distinct (visible.vertices acc) \<longrightarrow> distinct (visible.vertices r))"
  using assms
proof (induction es arbitrary: acc)
  case Nil
  then show ?case by simp
next
  case (Cons pe es)
  from Cons.prems obtain v where v: "pathElemToVertex g pe = Some v" by auto
  let ?edges = "case pathElemToEdge g pe of Some edge \<Rightarrow> setAdd edge (edges acc) | None \<Rightarrow> edges acc"
  let ?acc = "\<lparr>edges = ?edges, visible.vertices = setAdd v (visible.vertices acc)\<rparr>"
  have rest: "\<forall>pe \<in> set es. pathElemToVertex g pe \<noteq> None" using Cons.prems by simp
  from Cons.IH [OF rest, of ?acc] obtain r where
    run: "collectVisible g ?acc es = Inr r"
    and e: "set (edges r) = set (edges ?acc) \<union> {e. \<exists>pe \<in> set es. pathElemToEdge g pe = Some e}"
    and vs: "set (visible.vertices r)
             = set (visible.vertices ?acc) \<union> {v. \<exists>pe \<in> set es. pathElemToVertex g pe = Some v}"
    and de: "distinct (edges ?acc) \<longrightarrow> distinct (edges r)"
    and dv: "distinct (visible.vertices ?acc) \<longrightarrow> distinct (visible.vertices r)"
    by blast
  have step: "collectVisible g acc (pe # es) = Inr r" using run v by (simp add: Let_def)
  have e': "set (edges r) = set (edges acc) \<union> {e. \<exists>q \<in> set (pe # es). pathElemToEdge g q = Some e}"
    unfolding e by (cases "pathElemToEdge g pe") (auto simp: set_setAdd)
  have v': "set (visible.vertices r)
             = set (visible.vertices acc) \<union> {w. \<exists>q \<in> set (pe # es). pathElemToVertex g q = Some w}"
    unfolding vs using v by (auto simp: set_setAdd)
  have de': "distinct (edges acc) \<longrightarrow> distinct (edges r)"
    using de by (cases "pathElemToEdge g pe") (auto simp: distinct_setAdd)
  have dv': "distinct (visible.vertices acc) \<longrightarrow> distinct (visible.vertices r)"
    using dv by (auto simp: distinct_setAdd)
  show ?case using step e' v' de' dv' by blast
qed

lemma collectVisible_distinct:
  "collectVisible g acc es = Inr r \<Longrightarrow> distinct (visible.vertices acc)
     \<Longrightarrow> distinct (visible.vertices r)"
proof (induction es arbitrary: acc)
  case Nil
  then show ?case by simp
next
  case (Cons pe es)
  then show ?case
    by (cases "pathElemToVertex g pe") (auto simp: Let_def distinct_setAdd)
qed

lemma getVisible_distinct:
  assumes "getVisible decode0 g visEncoding = Inr r"
  shows "distinct (visible.vertices r)"
proof -
  from assms obtain es where
    "collectVisible g \<lparr>edges = [], visible.vertices = []\<rparr> es = Inr r"
    by (auto simp: getVisible_def split: sum.splits)
  then show ?thesis by (rule collectVisible_distinct) simp
qed

lemma set_inRange:
  "set (inRange g indices)
     = {visIdxToPathElem g ! i | i. i \<in> set indices \<and> i < length (visIdxToPathElem g)}"
  by (auto simp: inRange_def map_filter_def split: if_splits)

lemma inRange_filter:
  "inRange g (filter (\<lambda>i. i < length (visIdxToPathElem g)) indices) = inRange g indices"
  by (induction indices) (simp_all add: inRange_def map_filter_def)


lemma newGraphModel_Inr:
  assumes "newGraphModel gh getEdgeId m density0 showOp0 = Inr g"
  shows "connected (paths m) {} (TDdgModel.visIdxToPathElem m)"
    and "\<exists>st. graphInv (gh density0 showOp0 (paths m)) getEdgeId (paths m) st \<and>
           dom (gs_pathElemToVertex st) = set (TDdgModel.visIdxToPathElem m) \<and>
           pathElemToVertex g = gs_pathElemToVertex st \<and>
           pathElemToEdge g = gs_pathElemToEdge st \<and>
           GraphModel.vertices g = gs_vertices st \<and>
           visIdxToPathElem g = TDdgModel.visIdxToPathElem m"
proof -
  show c: "connected (paths m) {} (TDdgModel.visIdxToPathElem m)"
    using assms newGraphModel_fail [of m gh getEdgeId density0 showOp0] by fastforce
  from newGraphModel_ok [OF c, of gh density0 showOp0 getEdgeId] assms
  show "\<exists>st. graphInv (gh density0 showOp0 (paths m)) getEdgeId (paths m) st \<and>
           dom (gs_pathElemToVertex st) = set (TDdgModel.visIdxToPathElem m) \<and>
           pathElemToVertex g = gs_pathElemToVertex st \<and>
           pathElemToEdge g = gs_pathElemToEdge st \<and>
           GraphModel.vertices g = gs_vertices st \<and>
           visIdxToPathElem g = TDdgModel.visIdxToPathElem m"
    by auto
qed

lemma collectVisible_from_empty:
  assumes "\<forall>pe \<in> set es. pathElemToVertex g pe \<noteq> None"
  shows "\<exists>r. collectVisible g \<lparr>edges = [], visible.vertices = []\<rparr> es = Inr r \<and>
           set (edges r) = {e. \<exists>pe \<in> set es. pathElemToEdge g pe = Some e} \<and>
           set (visible.vertices r) = {v. \<exists>pe \<in> set es. pathElemToVertex g pe = Some v} \<and>
           distinct (edges r) \<and> distinct (visible.vertices r)"
  using collectVisible_ok [OF assms, of "\<lparr>edges = [], visible.vertices = []\<rparr>"] by simp

lemma bex_inRange:
  "(\<exists>pe \<in> set (inRange g indices). Q pe) \<longleftrightarrow>
     (\<exists>i \<in> set indices. i < length (visIdxToPathElem g) \<and> Q (visIdxToPathElem g ! i))"
  unfolding set_inRange by auto


lemma split_has_empty: "[] \<in> set (tl (split sep (x @ sep # sep # y)))"
proof (induction x)
  case Nil
  show ?case by simp
next
  case (Cons c x)
  show ?case
  proof (cases "c = sep")
    case True
    then show ?thesis using Cons
      by (cases "split sep (x @ sep # sep # y)") simp_all
  next
    case False
    then show ?thesis using Cons
      by (cases "split sep (x @ sep # sep # y)") simp_all
  qed
qed

lemma includes'_empty: "includes' s []"
  by (cases s) simp_all

lemma uiFindMatches_empty_token: "[] \<in> set uiFindArr \<Longrightarrow> uiFindMatches uiFindArr vertex"
  unfolding uiFindMatches_def Let_def list_ex_iff
  by (intro bexI [of _ "[]"] disjI1 includes'_empty)

lemma toLowerChar_space: "toLowerChar CHR '' '' = CHR '' ''"
  by (simp add: toLowerChar_def)

lemma foldl_setAdd_all:
  assumes "distinct (acc @ vs)" and "\<forall>v \<in> set vs. P v"
  shows "foldl (\<lambda>vertexSet vertex. if P vertex then setAdd vertex vertexSet else vertexSet) acc vs
           = acc @ vs"
  using assms
proof (induction vs arbitrary: acc)
  case Nil
  then show ?case by simp
next
  case (Cons v vs)
  have "setAdd v acc = acc @ [v]" using Cons.prems(1) by (simp add: setAdd_def)
  moreover have "distinct ((acc @ [v]) @ vs)" using Cons.prems(1) by simp
  ultimately show ?case using Cons.IH [of "acc @ [v]"] Cons.prems(2) by simp
qed


lemma tierRank_bound: "d \<in> set (tierOrder n) \<Longrightarrow> tierRank d < 2 * n"
  unfolding set_tierOrder tierRank_def by (cases "d > 0") auto

lemma sorted_rank_tierOrder: "sorted (map tierRank (tierOrder n))"
proof (induction n)
  case 0
  show ?case by simp
next
  case (Suc n)
  have a: "tierRank (- int n) = 2 * n" by (simp add: tierRank_def)
  have b: "tierRank (int n + 1) = 2 * n + 1" by (simp add: tierRank_def)
  have "\<forall>x \<in> set (map tierRank (tierOrder n)). x \<le> 2 * n"
    using tierRank_bound [of _ n] by fastforce
  then show ?case using Suc by (simp add: sorted_append a b) fastforce
qed

lemma sorted_rank_tiers:
  "sorted (map (\<lambda>pe. tierRank (distance P pe)) (concat (map (tier P) (tierOrder n))))"
  by (rule sorted_concat_const [where g = tierRank]) (auto simp: sorted_rank_tierOrder tier_def)

lemma tierRank_nearer: "d \<noteq> 0 \<Longrightarrow> tierRank (d - sgn d) < tierRank d"
  unfolding tierRank_def by (cases "d > 0") (auto simp: sgn_if)

lemma focalSideNeighbor_pathsFrom:
  assumes "pe \<in> set (allElems (pathsFrom fs fo 0 pps))"
    and "focalSideNeighbor (pathsFrom fs fo 0 pps) pe = Some n"
  shows "n \<in> set (allElems (pathsFrom fs fo 0 pps))"
    and "distance (pathsFrom fs fo 0 pps) n
           = distance (pathsFrom fs fo 0 pps) pe - sgn (distance (pathsFrom fs fo 0 pps) pe)"
    and "distance (pathsFrom fs fo 0 pps) pe \<noteq> 0"
proof -
  let ?P = "pathsFrom fs fo 0 pps"
  from assms(1) obtain p i where p: "p < length pps" and i: "i < length (pps ! p)"
    and pe: "pe = elemAt p i (pps ! p ! i)" unfolding in_allElems_pathsFrom by blast
  have po: "pathOf ?P pe = pathAt fs fo p (pps ! p)"
    using p by (simp add: pathOf_def pe elemAt_def length_pathsFrom nth_pathsFrom)
  have ms: "members (pathOf ?P pe) = map (\<lambda>j. elemAt p j (pps ! p ! j)) [0..<length (pps ! p)]"
    by (simp add: po members_pathAt)
  have mi: "memberIdx pe = i" by (simp add: pe elemAt_def)
  let ?d = "distance ?P pe"
  let ?i' = "int i - sgn ?d"
  show d0: "?d \<noteq> 0" using assms(2) by (auto simp: focalSideNeighbor_def)
  have rng: "0 \<le> ?i' \<and> ?i' < int (length (pps ! p))"
    using assms(2) d0 by (auto simp: focalSideNeighbor_def Let_def ms mi split: if_splits)
  then have j: "nat ?i' < length (pps ! p)" by linarith
  have n: "n = elemAt p (nat ?i') (pps ! p ! nat ?i')"
    using assms(2) d0 rng j by (simp add: focalSideNeighbor_def Let_def ms mi)
  show "n \<in> set (allElems ?P)" unfolding in_allElems_pathsFrom n using p j by blast
  have "distance ?P n = int (nat ?i') - int (firstFocal fs fo (pps ! p))"
    unfolding n by (rule distance_pathsFrom [OF p])
  moreover have "?d = int i - int (firstFocal fs fo (pps ! p))"
    unfolding pe by (rule distance_pathsFrom [OF p])
  ultimately show "distance ?P n = ?d - sgn ?d" using rng by simp
qed

lemma transform_neighbor_earlier:
  assumes L: "L = concat (map (tier (pathsFrom fs fo 0 pps)) (tierOrder N))"
    and S: "set L = set (allElems (pathsFrom fs fo 0 pps))"
    and i: "i < length L"
    and n: "focalSideNeighbor (pathsFrom fs fo 0 pps) (L ! i) = Some n"
  shows "\<exists>j<i. L ! j = n"
proof -
  let ?P = "pathsFrom fs fo 0 pps"
  let ?r = "\<lambda>pe. tierRank (distance ?P pe)"
  have pe: "L ! i \<in> set (allElems ?P)" using i S nth_mem by blast
  note f = focalSideNeighbor_pathsFrom [OF pe n]
  have "n \<in> set L" using f(1) S by simp
  then obtain j where j: "j < length L" "L ! j = n" by (auto simp: in_set_conv_nth)
  have lt: "?r n < ?r (L ! i)" using tierRank_nearer [OF f(3)] by (simp add: f(2))
  have srt: "sorted (map ?r L)" unfolding L by (rule sorted_rank_tiers)
  have "j < i"
  proof (rule ccontr)
    assume "\<not> j < i"
    then have "i \<le> j" by simp
    then have "map ?r L ! i \<le> map ?r L ! j"
      using srt j(1) by (simp add: sorted_iff_nth_mono)
    then show False using lt i j by simp
  qed
  then show ?thesis using j(2) by blast
qed

lemma transform_connected:
  assumes L: "L = concat (map (tier (pathsFrom fs fo 0 pps)) (tierOrder N))"
    and S: "set L = set (allElems (pathsFrom fs fo 0 pps))"
  shows "connected (pathsFrom fs fo 0 pps) {} L"
  unfolding connected_iff
proof (intro allI impI)
  fix i n assume i: "i < length L"
    and n: "focalSideNeighbor (pathsFrom fs fo 0 pps) (L ! i) = Some n"
  from transform_neighbor_earlier [OF L S i n] obtain j where j: "j < i" "L ! j = n" by blast
  then have "n \<in> set (take (Suc i) L)"
    using i by (auto simp: in_set_conv_nth intro!: exI [of _ j])
  then show "n \<in> {} \<union> set (take (Suc i) L)" by simp
qed

lemma connected_take: "connected heap seen xs \<Longrightarrow> connected heap seen (take i xs)"
proof (induction xs arbitrary: seen i)
  case Nil
  then show ?case by simp
next
  case (Cons pe xs)
  then show ?case by (cases i) simp_all
qed

text \<open>What a result of the transform is, for the graph model.\<close>

lemma transform_result:
  assumes run: "transformDdgData payload fs fo = Inr m"
  shows "paths m = pathsFrom fs fo 0 (sortPaths payload)"
    and "map snd (TDdgModel.visIdxToPathElem m)
           = concat (map (tier (paths m)) (tierOrder (Max (length ` set payload))))"
    and "set (map snd (TDdgModel.visIdxToPathElem m)) = set (allElems (paths m))"
proof -
  have foc: "\<forall>es \<in> set payload. hasFocal fs fo es"
  proof (rule ccontr)
    assume "\<not> ?thesis"
    then have "transformDdgData payload fs fo = Inl MissingFocalNode"
      by (intro transform_fail) simp
    then show False using run by simp
  qed
  have len: "\<forall>es \<in> set payload. length es \<le> Max (length ` set payload)" by simp
  from transform_ok [OF foc len] obtain m' where
    H: "transformDdgData payload fs fo = Inr m' \<and>
        paths m' = pathsFrom fs fo 0 (sortPaths payload) \<and>
        groups (paths m') (TDdgModel.distanceToPathElems m') \<and>
        TDdgModel.visIdxToPathElem m'
          = enumerate 0 (concat (map (tier (paths m')) (tierOrder (Max (length ` set payload))))) \<and>
        assigned 0 (concat (map (tier (paths m')) (tierOrder (Max (length ` set payload)))))
          Map.empty (visibilityIdx m') \<and>
        mset (concat (map (tier (paths m')) (tierOrder (Max (length ` set payload)))))
          = mset (allElems (paths m')) \<and>
        distinct (allElems (paths m'))" ..
  have "m' = m" using H [THEN conjunct1] run by simp
  note P = H [THEN conjunct2, THEN conjunct1, unfolded \<open>m' = m\<close>]
    and T = H [THEN conjunct2, THEN conjunct2, THEN conjunct2, THEN conjunct1, unfolded \<open>m' = m\<close>]
    and ms = H [THEN conjunct2, THEN conjunct2, THEN conjunct2, THEN conjunct2, THEN conjunct2,
                THEN conjunct1, unfolded \<open>m' = m\<close>]
  show "paths m = pathsFrom fs fo 0 (sortPaths payload)" by (rule P)
  show V: "map snd (TDdgModel.visIdxToPathElem m)
           = concat (map (tier (paths m)) (tierOrder (Max (length ` set payload))))"
    unfolding T by (rule map_snd_enumerate)
  show "set (map snd (TDdgModel.visIdxToPathElem m)) = set (allElems (paths m))"
    unfolding V by (rule mset_eq_setD [OF ms])
qed

lemma transform_result_earlier:
  assumes run: "transformDdgData payload fs fo = Inr m"
    and i: "i < length (TDdgModel.visIdxToPathElem m)"
    and n: "focalSideNeighbor (paths m) (snd (TDdgModel.visIdxToPathElem m ! i)) = Some n"
  shows "\<exists>j<i. snd (TDdgModel.visIdxToPathElem m ! j) = n"
proof -
  note r = transform_result [OF run]
  let ?L = "map snd (TDdgModel.visIdxToPathElem m)"
  have i': "i < length ?L" using i by simp
  have n': "focalSideNeighbor (pathsFrom fs fo 0 (sortPaths payload)) (?L ! i) = Some n"
    using n i by (simp add: r(1))
  from transform_neighbor_earlier [OF r(2) [unfolded r(1)] r(3) [unfolded r(1)] i' n']
  obtain j where "j < i" "?L ! j = n" by blast
  then show ?thesis using i by (intro exI [of _ j]) simp
qed

lemma transform_result_connected:
  assumes run: "transformDdgData payload fs fo = Inr m"
  shows "connected (paths m) {} (map snd (TDdgModel.visIdxToPathElem m))"
proof -
  note r = transform_result [OF run]
  show ?thesis
    unfolding r(1)
    by (rule transform_connected [OF r(2) [unfolded r(1)] r(3) [unfolded r(1)]])
qed

subsection \<open>An example\<close>

lemma example_model:
  "map_sum id (\<lambda>m. (paths m, TDdgModel.visIdxToPathElem m))
     (transformDdgData examplePayload ''B'' None)
   = Inr (examplePaths,
          [(0, exampleElem 1 ''B''), (1, exampleElem 2 ''C''), (2, exampleElem 0 ''A''),
           (3, exampleElem 3 ''D'')])"
  by code_simp

lemma example_model_ex:
  "\<exists>m. transformDdgData examplePayload ''B'' None = Inr m \<and>
        paths m = examplePaths \<and>
        TDdgModel.visIdxToPathElem m
          = [(0, exampleElem 1 ''B''), (1, exampleElem 2 ''C''), (2, exampleElem 0 ''A''),
             (3, exampleElem 3 ''D'')]"
proof (cases "transformDdgData examplePayload ''B'' None")
  case (Inl e)
  then show ?thesis using example_model by simp
next
  case (Inr m)
  then show ?thesis using example_model by simp
qed

lemma example_neighbor:
  "focalSideNeighbor examplePaths (exampleElem 3 ''D'') = Some (exampleElem 2 ''C'')"
  "focalSideNeighbor examplePaths (exampleElem 2 ''C'') = Some (exampleElem 1 ''B'')"
  "distance examplePaths (exampleElem 2 ''C'') = 1"
  "distance examplePaths (exampleElem 0 ''A'') = - 1"
  "focalSideNeighbor examplePaths (exampleElem 0 ''A'') = Some (exampleElem 1 ''B'')"
  by code_simp+

lemma example_keys:
  "mostConcise MostConcise False examplePaths (exampleElem 1 ''B'') = ''B::get''"
  "mostConcise MostConcise False examplePaths (exampleElem 2 ''C'') = ''C''"
  "mostConcise MostConcise False examplePaths (exampleElem 0 ''A'') = ''A''"
  by code_simp+

lemma arrayModel_simps:
  "paths (arrayModel m) = paths m"
  "TDdgModel.visIdxToPathElem (arrayModel m) = map snd (TDdgModel.visIdxToPathElem m)"
  "TDdgModel.distanceToPathElems (arrayModel m) = TDdgModel.distanceToPathElems m"
  by (simp_all add: arrayModel_def)

lemma example_graph_ex:
  "\<exists>m g. transformDdgData examplePayload ''B'' None = Inr m \<and>
     paths (arrayModel m) = examplePaths \<and>
     TDdgModel.visIdxToPathElem (arrayModel m)
       = [exampleElem 1 ''B'', exampleElem 2 ''C'', exampleElem 0 ''A'', exampleElem 3 ''D''] \<and>
     newGraphModel mostConcise Pair (arrayModel m) MostConcise False = Inr g"
proof -
  from example_model_ex obtain m where
    run: "transformDdgData examplePayload ''B'' None = Inr m"
    and P: "paths m = examplePaths"
    and T: "TDdgModel.visIdxToPathElem m
          = [(0, exampleElem 1 ''B''), (1, exampleElem 2 ''C''), (2, exampleElem 0 ''A''),
             (3, exampleElem 3 ''D'')]"
    by blast
  have xs: "TDdgModel.visIdxToPathElem (arrayModel m)
       = [exampleElem 1 ''B'', exampleElem 2 ''C'', exampleElem 0 ''A'', exampleElem 3 ''D'']"
    by (simp add: arrayModel_simps T)
  have PA: "paths (arrayModel m) = examplePaths" by (simp add: arrayModel_simps P)
  have "connected (paths (arrayModel m)) {} (TDdgModel.visIdxToPathElem (arrayModel m))"
    using transform_result_connected [OF run] by (simp only: arrayModel_simps)
  from newGraphModel_ok [OF this, of mostConcise MostConcise False Pair]
  obtain g where "newGraphModel mostConcise Pair (arrayModel m) MostConcise False = Inr g"
    by blast
  with run PA xs show ?thesis by blast
qed

lemma example_visible:
  "(case transformDdgData examplePayload ''B'' None of
      Inl e \<Rightarrow> Inl e
    | Inr m \<Rightarrow>
        (case newGraphModel mostConcise Pair (arrayModel m) MostConcise False of
           Inl e \<Rightarrow> Inl e
         | Inr g \<Rightarrow>
             map_sum id (\<lambda>r. (map key (visible.vertices r), edges r))
               (getVisible exampleDecode g (Some ''some''))))
   = Inr ([''B::get'', ''A''], [\<lparr>from' = ''A'', to' = ''B::get''\<rparr>])"
  by code_simp

lemma example_find:
  "(case transformDdgData examplePayload ''B'' None of
      Inl e \<Rightarrow> Inl e
    | Inr m \<Rightarrow>
        (case newGraphModel mostConcise Pair (arrayModel m) MostConcise False of
           Inl e \<Rightarrow> Inl e
         | Inr g \<Rightarrow>
             map_sum id (map key)
               (getVisibleUiFindMatches exampleDecode g (Some ''x y'') (Some ''some''))))
   = Inr []"
  by code_simp

lemma example_trim: "trim ''x  y'' = ''x'' @ ''  '' @ ''y''"
  by code_simp

section \<open>The focal side neighbour has a vertex\<close>

text \<open>
  C5. \<^verbatim>\<open>GraphModel\<close> takes \<^verbatim>\<open>ddgModel.visIdxToPathElem\<close> as the array \<^verbatim>\<open>PathElem[]\<close> of
  \<^verbatim>\<open>types.tsx\<close>, and the transform returns a \<^verbatim>\<open>Map\<close>; the theorem is of every \<open>ddgModel\<close> that
  has the paths of a result \<open>m\<close> of \<^const>\<open>transformDdgData\<close> and, as its array, the values of
  the \<^verbatim>\<open>Map\<close> of \<open>m\<close> in the order of their keys, which is the PathElems in ascending
  visibility index. For every hasher, edge id function, density and \<^verbatim>\<open>showOp\<close>: the
  constructor returns a graph model, so it throws neither of its two errors; the focal side
  neighbour of the PathElem at position \<open>i\<close> of the array is at an earlier position; and when
  the loop of the constructor has run on the elements before position \<open>i\<close>, the focal side
  neighbour of the element at position \<open>i\<close> has a vertex in \<^verbatim>\<open>pathElemToVertex\<close>. Conversely,
  for every array \<open>xs\<close> in place of \<^verbatim>\<open>visIdxToPathElem\<close>: when the focal side neighbour of
  some element of \<open>xs\<close> is neither that element nor before it in \<open>xs\<close> (it was removed, or
  moved after the element), the constructor throws the error of a PathElem that cannot be
  connected.
\<close>

theorem newGraphModel_connected:
  assumes "transformDdgData payload focalService focalOperation = Inr m"
    and "paths ddgModel = paths m"
    and "TDdgModel.visIdxToPathElem ddgModel = map snd (TDdgModel.visIdxToPathElem m)"
  shows "(\<exists>g. newGraphModel getPathElemHasher getEdgeId ddgModel density0 showOp0 = Inr g) \<and>
    (\<forall>i n. i < length (TDdgModel.visIdxToPathElem ddgModel) \<and>
        focalSideNeighbor (paths ddgModel) (TDdgModel.visIdxToPathElem ddgModel ! i) = Some n \<longrightarrow>
      (\<exists>j<i. TDdgModel.visIdxToPathElem ddgModel ! j = n) \<and>
      (\<exists>st. forEach_addPathElem (getPathElemHasher density0 showOp0 (paths ddgModel)) getEdgeId
              showOp0 (paths ddgModel)
              \<lparr>gs_vertices = Map.empty, gs_vertexToPathElems = Map.empty,
               gs_pathElemToVertex = Map.empty, gs_pathElemToEdge = Map.empty,
               gs_edgesById = Map.empty\<rparr>
              (take i (TDdgModel.visIdxToPathElem ddgModel)) = Inr st \<and>
            gs_pathElemToVertex st n \<noteq> None)) \<and>
    (\<forall>xs i n. i < length xs \<and> focalSideNeighbor (paths ddgModel) (xs ! i) = Some n \<and>
        n \<notin> set (take (Suc i) xs) \<longrightarrow>
      newGraphModel getPathElemHasher getEdgeId (ddgModel\<lparr>TDdgModel.visIdxToPathElem := xs\<rparr>)
        density0 showOp0 = Inl DisconnectedPathElem)"
proof (intro conjI allI impI)
  let ?xs = "TDdgModel.visIdxToPathElem ddgModel"
  let ?P = "paths ddgModel"
  have con: "connected ?P {} ?xs"
    using transform_result_connected [OF assms(1)] by (simp only: assms(2,3))
  from newGraphModel_ok [OF con, of getPathElemHasher density0 showOp0 getEdgeId]
  show "\<exists>g. newGraphModel getPathElemHasher getEdgeId ddgModel density0 showOp0 = Inr g"
    by blast
  fix i n
  assume a: "i < length ?xs \<and> focalSideNeighbor ?P (?xs ! i) = Some n"
  then have i: "i < length (TDdgModel.visIdxToPathElem m)" by (simp add: assms(3))
  have n: "focalSideNeighbor (paths m) (snd (TDdgModel.visIdxToPathElem m ! i)) = Some n"
    using a i by (simp add: assms(2,3))
  from transform_result_earlier [OF assms(1) i n] obtain j where
    j: "j < i" "snd (TDdgModel.visIdxToPathElem m ! j) = n" by blast
  have xj: "?xs ! j = n" using j i by (simp add: assms(3))
  show "\<exists>j<i. ?xs ! j = n" using j(1) xj by blast
  let ?st0 = "\<lparr>gs_vertices = Map.empty, gs_vertexToPathElems = Map.empty,
               gs_pathElemToVertex = Map.empty, gs_pathElemToEdge = Map.empty,
               gs_edgesById = Map.empty :: 'a \<rightharpoonup> TEdge\<rparr>"
  have c: "connected ?P (dom (gs_pathElemToVertex ?st0)) (take i ?xs)"
    using connected_take [OF con, of i] by simp
  from forEach_addPathElem_ok [OF graphInv_empty c,
      of "getPathElemHasher density0 showOp0 ?P" getEdgeId showOp0]
  obtain st where
    run: "forEach_addPathElem (getPathElemHasher density0 showOp0 ?P) getEdgeId showOp0 ?P ?st0
            (take i ?xs) = Inr st"
    and dom: "dom (gs_pathElemToVertex st) = dom (gs_pathElemToVertex ?st0) \<union> set (take i ?xs)"
    by blast
  have "n \<in> set (take i ?xs)"
    using j(1) xj a by (auto simp: in_set_conv_nth intro!: exI [of _ j])
  then have "n \<in> dom (gs_pathElemToVertex st)" by (simp add: dom)
  then have "gs_pathElemToVertex st n \<noteq> None" by blast
  with run show "\<exists>st. forEach_addPathElem (getPathElemHasher density0 showOp0 ?P) getEdgeId
              showOp0 ?P ?st0 (take i ?xs) = Inr st \<and> gs_pathElemToVertex st n \<noteq> None"
    by blast
next
  fix xs i n
  assume a: "i < length xs \<and> focalSideNeighbor (paths ddgModel) (xs ! i) = Some n \<and>
        n \<notin> set (take (Suc i) xs)"
  have "\<not> connected (paths (ddgModel\<lparr>TDdgModel.visIdxToPathElem := xs\<rparr>)) {}
           (TDdgModel.visIdxToPathElem (ddgModel\<lparr>TDdgModel.visIdxToPathElem := xs\<rparr>))"
    unfolding connected_iff using a by auto
  then show "newGraphModel getPathElemHasher getEdgeId (ddgModel\<lparr>TDdgModel.visIdxToPathElem := xs\<rparr>)
        density0 showOp0 = Inl DisconnectedPathElem"
    by (rule newGraphModel_fail)
qed

theorem newGraphModel_connected_witness:
  "\<exists>m. transformDdgData examplePayload ''B'' None = Inr m \<and>
     TDdgModel.visIdxToPathElem (arrayModel m)
       = [exampleElem 1 ''B'', exampleElem 2 ''C'', exampleElem 0 ''A'', exampleElem 3 ''D''] \<and>
     (\<exists>g. newGraphModel mostConcise Pair (arrayModel m) MostConcise False = Inr g) \<and>
     (\<exists>j<3. TDdgModel.visIdxToPathElem (arrayModel m) ! j = exampleElem 2 ''C'') \<and>
     newGraphModel mostConcise Pair
       ((arrayModel m)\<lparr>TDdgModel.visIdxToPathElem :=
          [exampleElem 1 ''B'', exampleElem 0 ''A'', exampleElem 3 ''D'']\<rparr>)
       MostConcise False = Inl DisconnectedPathElem \<and>
     newGraphModel mostConcise Pair
       ((arrayModel m)\<lparr>TDdgModel.visIdxToPathElem :=
          [exampleElem 1 ''B'', exampleElem 3 ''D'', exampleElem 2 ''C'', exampleElem 0 ''A'']\<rparr>)
       MostConcise False = Inl DisconnectedPathElem"
proof -
  from example_model_ex obtain m where
    run: "transformDdgData examplePayload ''B'' None = Inr m"
    and P: "paths m = examplePaths"
    and T: "TDdgModel.visIdxToPathElem m
          = [(0, exampleElem 1 ''B''), (1, exampleElem 2 ''C''), (2, exampleElem 0 ''A''),
             (3, exampleElem 3 ''D'')]"
    by blast
  have xs: "TDdgModel.visIdxToPathElem (arrayModel m)
       = [exampleElem 1 ''B'', exampleElem 2 ''C'', exampleElem 0 ''A'', exampleElem 3 ''D'']"
    by (simp add: arrayModel_simps T)
  have PA: "paths (arrayModel m) = examplePaths" by (simp add: arrayModel_simps P)
  note inst = newGraphModel_connected [OF run arrayModel_simps(1) arrayModel_simps(2),
      of mostConcise Pair MostConcise False]
  note ok = inst [THEN conjunct1]
    and early = inst [THEN conjunct2, THEN conjunct1, rule_format, of 3 "exampleElem 2 ''C''",
                     THEN conjunct1]
    and bad = inst [THEN conjunct2, THEN conjunct2, rule_format]
  have e: "\<exists>j<3. TDdgModel.visIdxToPathElem (arrayModel m) ! j = exampleElem 2 ''C''"
    by (rule early) (simp add: xs PA example_neighbor)
  have r1: "2 < length [exampleElem 1 ''B'', exampleElem 0 ''A'', exampleElem 3 ''D''] \<and>
      focalSideNeighbor examplePaths
        ([exampleElem 1 ''B'', exampleElem 0 ''A'', exampleElem 3 ''D''] ! 2)
        = Some (exampleElem 2 ''C'') \<and>
      exampleElem 2 ''C''
        \<notin> set (take (Suc 2) [exampleElem 1 ''B'', exampleElem 0 ''A'', exampleElem 3 ''D''])"
    by code_simp
  have r2: "1 < length [exampleElem 1 ''B'', exampleElem 3 ''D'', exampleElem 2 ''C'',
                       exampleElem 0 ''A''] \<and>
      focalSideNeighbor examplePaths
        ([exampleElem 1 ''B'', exampleElem 3 ''D'', exampleElem 2 ''C'', exampleElem 0 ''A''] ! 1)
        = Some (exampleElem 2 ''C'') \<and>
      exampleElem 2 ''C''
        \<notin> set (take (Suc 1) [exampleElem 1 ''B'', exampleElem 3 ''D'', exampleElem 2 ''C'',
                              exampleElem 0 ''A''])"
    by code_simp
  have removed: "newGraphModel mostConcise Pair
       ((arrayModel m)\<lparr>TDdgModel.visIdxToPathElem :=
          [exampleElem 1 ''B'', exampleElem 0 ''A'', exampleElem 3 ''D'']\<rparr>)
       MostConcise False = Inl DisconnectedPathElem"
    by (rule bad [of 2 _ "exampleElem 2 ''C''"]) (simp only: PA r1 simp_thms)
  have moved: "newGraphModel mostConcise Pair
       ((arrayModel m)\<lparr>TDdgModel.visIdxToPathElem :=
          [exampleElem 1 ''B'', exampleElem 3 ''D'', exampleElem 2 ''C'', exampleElem 0 ''A'']\<rparr>)
       MostConcise False = Inl DisconnectedPathElem"
    by (rule bad [of 1 _ "exampleElem 2 ''C''"]) (simp only: PA r2 simp_thms)
  show ?thesis by (intro exI [of _ m] conjI run xs ok e removed moved)
qed

section \<open>The direction of an edge\<close>

text \<open>
  C6, as amended. The claim has the edge of a PathElem of positive distance directed from
  the side farther from the focal node to the side nearer it. The constructor takes
  \<^verbatim>\<open>from = connectedVertex.key\<close> and \<^verbatim>\<open>to = vertex.key\<close> when the distance is positive, and
  the two the other way round otherwise: for a PathElem of a graph model that has a focal
  side neighbour, both have a vertex, whose keys are their hashes, and the PathElem has an
  edge; when the distance is positive the edge has the id of the edge from the vertex of the
  neighbour (the side nearer the focal node) to the vertex of the PathElem (the farther
  side), and when it is negative the id of the edge from the vertex of the PathElem (farther)
  to the vertex of the neighbour (nearer). Where \<open>getEdgeId\<close> gives different ids to different
  pairs of keys, the edge is that edge.
\<close>

theorem newGraphModel_edge_direction:
  assumes "newGraphModel getPathElemHasher getEdgeId ddgModel density0 showOp0 = Inr g"
    and "pathElem \<in> set (TDdgModel.visIdxToPathElem ddgModel)"
    and "focalSideNeighbor (paths ddgModel) pathElem = Some connectedElem"
  shows "\<exists>vertex connectedVertex edge.
    pathElemToVertex g pathElem = Some vertex \<and>
    pathElemToVertex g connectedElem = Some connectedVertex \<and>
    key vertex = getPathElemHasher density0 showOp0 (paths ddgModel) pathElem \<and>
    key connectedVertex = getPathElemHasher density0 showOp0 (paths ddgModel) connectedElem \<and>
    pathElemToEdge g pathElem = Some edge \<and>
    getEdgeId (from' edge) (to' edge) =
      (if 0 < distance (paths ddgModel) pathElem
       then getEdgeId (key connectedVertex) (key vertex)
       else getEdgeId (key vertex) (key connectedVertex)) \<and>
    ((\<forall>a b c d. getEdgeId a b = getEdgeId c d \<longrightarrow> a = c \<and> b = d) \<longrightarrow>
      edge = (if 0 < distance (paths ddgModel) pathElem
              then \<lparr>from' = key connectedVertex, to' = key vertex\<rparr>
              else \<lparr>from' = key vertex, to' = key connectedVertex\<rparr>))"
proof -
  let ?h = "getPathElemHasher density0 showOp0 (paths ddgModel)"
  let ?L = "TDdgModel.visIdxToPathElem ddgModel"
  let ?d = "distance (paths ddgModel) pathElem"
  have con: "connected (paths ddgModel) {} ?L" by (rule newGraphModel_Inr(1) [OF assms(1)])
  from newGraphModel_Inr(2) [OF assms(1)] obtain st where
    H: "graphInv ?h getEdgeId (paths ddgModel) st \<and>
           dom (gs_pathElemToVertex st) = set ?L \<and>
           pathElemToVertex g = gs_pathElemToVertex st \<and>
           pathElemToEdge g = gs_pathElemToEdge st \<and>
           GraphModel.vertices g = gs_vertices st \<and>
           visIdxToPathElem g = ?L" ..
  note inv = H [THEN conjunct1]
    and dom = H [THEN conjunct2, THEN conjunct1]
    and p2v = H [THEN conjunct2, THEN conjunct2, THEN conjunct1]
    and p2e = H [THEN conjunct2, THEN conjunct2, THEN conjunct2, THEN conjunct1]
  obtain i where i: "i < length ?L" "?L ! i = pathElem"
    using assms(2) by (auto simp: in_set_conv_nth)
  have "connectedElem \<in> set (take (Suc i) ?L)"
    using con i assms(3) unfolding connected_iff by blast
  then have nin: "connectedElem \<in> set ?L" by (rule in_set_takeD)
  obtain v where v: "gs_pathElemToVertex st pathElem = Some v"
    using assms(2) dom by blast
  obtain w where w: "gs_pathElemToVertex st connectedElem = Some w"
    using nin dom by blast
  have kv: "key v = ?h pathElem"
    using graphInv_vertex(1) [OF inv graphInv_elem [OF inv v]] .
  have kw: "key w = ?h connectedElem"
    using graphInv_vertex(1) [OF inv graphInv_elem [OF inv w]] .
  have "gs_pathElemToEdge st pathElem \<noteq> None"
    using inv v assms(3) unfolding graphInv_def by blast
  then obtain e where e: "gs_pathElemToEdge st pathElem = Some e" by blast
  have "\<exists>n. focalSideNeighbor (paths ddgModel) pathElem = Some n \<and>
            getEdgeId (from' e) (to' e)
              = getEdgeId (fst (edgeEnds ?h (paths ddgModel) pathElem n))
                  (snd (edgeEnds ?h (paths ddgModel) pathElem n))"
    using inv e unfolding graphInv_def by blast
  then have id: "getEdgeId (from' e) (to' e)
              = getEdgeId (fst (edgeEnds ?h (paths ddgModel) pathElem connectedElem))
                  (snd (edgeEnds ?h (paths ddgModel) pathElem connectedElem))"
    using assms(3) by simp
  have id': "getEdgeId (from' e) (to' e) =
      (if 0 < ?d then getEdgeId (key w) (key v) else getEdgeId (key v) (key w))"
    using id by (simp add: edgeEnds_def kv kw)
  have inj: "e = (if 0 < ?d then \<lparr>from' = key w, to' = key v\<rparr> else \<lparr>from' = key v, to' = key w\<rparr>)"
    if I: "\<forall>a b c d. getEdgeId a b = getEdgeId c d \<longrightarrow> a = c \<and> b = d"
  proof -
    have "from' e = fst (edgeEnds ?h (paths ddgModel) pathElem connectedElem)"
      "to' e = snd (edgeEnds ?h (paths ddgModel) pathElem connectedElem)"
      using id I by blast+
    then show ?thesis by (simp add: edgeEnds_def kv kw)
  qed
  have v': "pathElemToVertex g pathElem = Some v" by (simp add: p2v v)
  have w': "pathElemToVertex g connectedElem = Some w" by (simp add: p2v w)
  have e': "pathElemToEdge g pathElem = Some e" by (simp add: p2e e)
  show ?thesis
    using inj by (intro exI [of _ v] exI [of _ w] exI [of _ e] conjI v' w' kv kw e' id' impI)
qed

theorem newGraphModel_edge_direction_witness:
  "\<exists>m g. transformDdgData examplePayload ''B'' None = Inr m \<and>
     newGraphModel mostConcise Pair (arrayModel m) MostConcise False = Inr g \<and>
     distance (paths (arrayModel m)) (exampleElem 2 ''C'') = 1 \<and>
     pathElemToEdge g (exampleElem 2 ''C'') = Some \<lparr>from' = ''B::get'', to' = ''C''\<rparr> \<and>
     distance (paths (arrayModel m)) (exampleElem 0 ''A'') = - 1 \<and>
     pathElemToEdge g (exampleElem 0 ''A'') = Some \<lparr>from' = ''A'', to' = ''B::get''\<rparr>"
proof -
  from example_graph_ex obtain m g where
    run: "transformDdgData examplePayload ''B'' None = Inr m"
    and PA: "paths (arrayModel m) = examplePaths"
    and xs: "TDdgModel.visIdxToPathElem (arrayModel m)
       = [exampleElem 1 ''B'', exampleElem 2 ''C'', exampleElem 0 ''A'', exampleElem 3 ''D'']"
    and g: "newGraphModel mostConcise Pair (arrayModel m) MostConcise False = Inr g"
    by blast
  have inj: "\<forall>a b c d. (Pair a b :: string \<times> string) = Pair c d \<longrightarrow> a = c \<and> b = d" by simp
  have inC: "exampleElem 2 ''C'' \<in> set (TDdgModel.visIdxToPathElem (arrayModel m))"
    by (simp add: xs)
  have inA: "exampleElem 0 ''A'' \<in> set (TDdgModel.visIdxToPathElem (arrayModel m))"
    by (simp add: xs)
  have nC: "focalSideNeighbor (paths (arrayModel m)) (exampleElem 2 ''C'')
              = Some (exampleElem 1 ''B'')"
    by (simp only: PA example_neighbor)
  have nA: "focalSideNeighbor (paths (arrayModel m)) (exampleElem 0 ''A'')
              = Some (exampleElem 1 ''B'')"
    by (simp only: PA example_neighbor)
  have dC: "distance (paths (arrayModel m)) (exampleElem 2 ''C'') = 1"
    by (simp only: PA example_neighbor)
  have dA: "distance (paths (arrayModel m)) (exampleElem 0 ''A'') = - 1"
    by (simp only: PA example_neighbor)
  from newGraphModel_edge_direction [OF g inC nC]
  have eC: "pathElemToEdge g (exampleElem 2 ''C'') = Some \<lparr>from' = ''B::get'', to' = ''C''\<rparr>"
  proof (elim exE conjE)
    fix v w e
    assume kv: "key v = mostConcise MostConcise False (paths (arrayModel m)) (exampleElem 2 ''C'')"
      and kw: "key w = mostConcise MostConcise False (paths (arrayModel m)) (exampleElem 1 ''B'')"
      and e: "pathElemToEdge g (exampleElem 2 ''C'') = Some e"
      and dir: "(\<forall>a b c d. (Pair a b :: string \<times> string) = Pair c d \<longrightarrow> a = c \<and> b = d) \<longrightarrow>
        e = (if 0 < distance (paths (arrayModel m)) (exampleElem 2 ''C'')
             then \<lparr>from' = key w, to' = key v\<rparr> else \<lparr>from' = key v, to' = key w\<rparr>)"
    have "e = (if 0 < distance (paths (arrayModel m)) (exampleElem 2 ''C'')
             then \<lparr>from' = key w, to' = key v\<rparr> else \<lparr>from' = key v, to' = key w\<rparr>)"
      using dir inj by (rule mp)
    then have "e = \<lparr>from' = ''B::get'', to' = ''C''\<rparr>"
      by (simp only: kv kw PA example_neighbor example_keys) simp
    then show ?thesis using e by simp
  qed
  from newGraphModel_edge_direction [OF g inA nA]
  have eA: "pathElemToEdge g (exampleElem 0 ''A'') = Some \<lparr>from' = ''A'', to' = ''B::get''\<rparr>"
  proof (elim exE conjE)
    fix v w e
    assume kv: "key v = mostConcise MostConcise False (paths (arrayModel m)) (exampleElem 0 ''A'')"
      and kw: "key w = mostConcise MostConcise False (paths (arrayModel m)) (exampleElem 1 ''B'')"
      and e: "pathElemToEdge g (exampleElem 0 ''A'') = Some e"
      and dir: "(\<forall>a b c d. (Pair a b :: string \<times> string) = Pair c d \<longrightarrow> a = c \<and> b = d) \<longrightarrow>
        e = (if 0 < distance (paths (arrayModel m)) (exampleElem 0 ''A'')
             then \<lparr>from' = key w, to' = key v\<rparr> else \<lparr>from' = key v, to' = key w\<rparr>)"
    have "e = (if 0 < distance (paths (arrayModel m)) (exampleElem 0 ''A'')
             then \<lparr>from' = key w, to' = key v\<rparr> else \<lparr>from' = key v, to' = key w\<rparr>)"
      using dir inj by (rule mp)
    then have "e = \<lparr>from' = ''A'', to' = ''B::get''\<rparr>"
      by (simp only: kv kw PA example_neighbor example_keys) simp
    then show ?thesis using e by simp
  qed
  show ?thesis by (intro exI [of _ m] exI [of _ g] conjI run g dC eC dA eA)
qed

theorem newGraphModel_edge_direction_counterexample:
  "(case transformDdgData examplePayload ''B'' None of
      Inl e \<Rightarrow> Inl e
    | Inr m \<Rightarrow>
        map_sum id
          (\<lambda>g. (distance (paths (arrayModel m)) (exampleElem 2 ''C''),
                focalSideNeighbor (paths (arrayModel m)) (exampleElem 2 ''C''),
                distance (paths (arrayModel m)) (exampleElem 1 ''B''),
                map_option key (pathElemToVertex g (exampleElem 1 ''B'')),
                map_option key (pathElemToVertex g (exampleElem 2 ''C'')),
                pathElemToEdge g (exampleElem 2 ''C'')))
          (newGraphModel mostConcise Pair (arrayModel m) MostConcise False))
   = Inr (1, Some (exampleElem 1 ''B''), 0, Some ''B::get'', Some ''C'',
          Some \<lparr>from' = ''B::get'', to' = ''C''\<rparr>)"
  by code_simp

section \<open>Indices without a PathElem\<close>

text \<open>
  C9. For every graph model \<open>g\<close> that the constructor returns and every token that \<open>decode0\<close>
  decodes to a list of indices: \<^const>\<open>getVisible\<close> does not fail; the vertices and the edges
  it returns are without repetition; they are exactly the vertices and the edges of the
  PathElems \<^verbatim>\<open>visIdxToPathElem[i]\<close> for the indices \<open>i\<close> of the list that are below the length of
  \<^verbatim>\<open>visIdxToPathElem\<close>; and every token that decodes to the list without the other indices
  has the same result, so that the indices without a PathElem change nothing.
\<close>

theorem getVisible_drops_unknown_indices:
  assumes "newGraphModel getPathElemHasher getEdgeId ddgModel density0 showOp0 = Inr g"
    and "decode0 enc = Inr indices"
  shows "\<exists>r. getVisible decode0 g (Some enc) = Inr r \<and>
    distinct (visible.vertices r) \<and> distinct (edges r) \<and>
    set (visible.vertices r)
      = {v. \<exists>i \<in> set indices. i < length (visIdxToPathElem g) \<and>
              pathElemToVertex g (visIdxToPathElem g ! i) = Some v} \<and>
    set (edges r)
      = {e. \<exists>i \<in> set indices. i < length (visIdxToPathElem g) \<and>
              pathElemToEdge g (visIdxToPathElem g ! i) = Some e} \<and>
    (\<forall>enc'. decode0 enc' = Inr (filter (\<lambda>i. i < length (visIdxToPathElem g)) indices) \<longrightarrow>
       getVisible decode0 g (Some enc') = Inr r)"
proof -
  from newGraphModel_Inr(2) [OF assms(1)] obtain st where
    H: "graphInv (getPathElemHasher density0 showOp0 (paths ddgModel)) getEdgeId (paths ddgModel) st \<and>
           dom (gs_pathElemToVertex st) = set (TDdgModel.visIdxToPathElem ddgModel) \<and>
           pathElemToVertex g = gs_pathElemToVertex st \<and>
           pathElemToEdge g = gs_pathElemToEdge st \<and>
           GraphModel.vertices g = gs_vertices st \<and>
           visIdxToPathElem g = TDdgModel.visIdxToPathElem ddgModel" ..
  note dom = H [THEN conjunct2, THEN conjunct1]
    and p2v = H [THEN conjunct2, THEN conjunct2, THEN conjunct1]
    and vis = H [THEN conjunct2, THEN conjunct2, THEN conjunct2, THEN conjunct2, THEN conjunct2]
  have known: "\<forall>pe \<in> set (inRange g indices). pathElemToVertex g pe \<noteq> None"
  proof
    fix pe assume "pe \<in> set (inRange g indices)"
    then have "pe \<in> set (visIdxToPathElem g)" by (auto simp: set_inRange)
    then have "pe \<in> dom (pathElemToVertex g)" by (simp add: p2v dom vis)
    then show "pathElemToVertex g pe \<noteq> None" by auto
  qed
  from collectVisible_from_empty [OF known] obtain r where
    run: "collectVisible g \<lparr>edges = [], visible.vertices = []\<rparr> (inRange g indices) = Inr r"
    and e: "set (edges r) = {e. \<exists>pe \<in> set (inRange g indices). pathElemToEdge g pe = Some e}"
    and v: "set (visible.vertices r)
              = {v. \<exists>pe \<in> set (inRange g indices). pathElemToVertex g pe = Some v}"
    and de: "distinct (edges r)" and dv: "distinct (visible.vertices r)"
    by blast
  have gv: "getVisible decode0 g (Some enc) = Inr r"
    using run assms(2) by (simp add: getVisible_def getVisiblePathElems_def inRange_def)
  have gv': "getVisible decode0 g (Some enc') = Inr r"
    if "decode0 enc' = Inr (filter (\<lambda>i. i < length (visIdxToPathElem g)) indices)" for enc'
    using run that inRange_filter [of g indices]
    by (simp add: getVisible_def getVisiblePathElems_def inRange_def)
  have v': "set (visible.vertices r)
      = {v. \<exists>i \<in> set indices. i < length (visIdxToPathElem g) \<and>
              pathElemToVertex g (visIdxToPathElem g ! i) = Some v}"
    unfolding v by (simp only: bex_inRange)
  have e': "set (edges r)
      = {e. \<exists>i \<in> set indices. i < length (visIdxToPathElem g) \<and>
              pathElemToEdge g (visIdxToPathElem g ! i) = Some e}"
    unfolding e by (simp only: bex_inRange)
  show ?thesis
    by (intro exI [of _ r] conjI allI impI gv dv de v' e' gv')
qed

theorem getVisible_drops_unknown_indices_witness:
  "\<exists>m g r. transformDdgData examplePayload ''B'' None = Inr m \<and>
     newGraphModel mostConcise Pair (arrayModel m) MostConcise False = Inr g \<and>
     length (visIdxToPathElem g) = 4 \<and>
     exampleDecode ''some'' = Inr [0, 2, 100, 2] \<and>
     getVisible exampleDecode g (Some ''some'') = Inr r \<and>
     getVisible exampleDecode g (Some ''known'') = Inr r \<and>
     distinct (visible.vertices r) \<and> distinct (edges r) \<and>
     map key (visible.vertices r) = [''B::get'', ''A''] \<and>
     edges r = [\<lparr>from' = ''A'', to' = ''B::get''\<rparr>]"
proof -
  from example_graph_ex obtain m g where
    run: "transformDdgData examplePayload ''B'' None = Inr m"
    and xs: "TDdgModel.visIdxToPathElem (arrayModel m)
       = [exampleElem 1 ''B'', exampleElem 2 ''C'', exampleElem 0 ''A'', exampleElem 3 ''D'']"
    and g: "newGraphModel mostConcise Pair (arrayModel m) MostConcise False = Inr g"
    by blast
  have len: "length (visIdxToPathElem g) = 4"
    using newGraphModel_Inr(2) [OF g] by (auto simp: xs)
  have dec: "exampleDecode ''some'' = Inr [0, 2, 100, 2]" by (simp add: exampleDecode_def)
  have dec': "exampleDecode ''known''
      = Inr (filter (\<lambda>i. i < length (visIdxToPathElem g)) [0, 2, 100, 2])"
    by (simp add: exampleDecode_def len)
  from getVisible_drops_unknown_indices
    [of mostConcise Pair "arrayModel m" MostConcise False g exampleDecode "''some''"
        "[0, 2, 100, 2]", OF g dec]
  show ?thesis
  proof (elim exE conjE)
    fix r
    assume r: "getVisible exampleDecode g (Some ''some'') = Inr r"
      and dv: "distinct (visible.vertices r)" and de: "distinct (edges r)"
      and same: "\<forall>enc'. exampleDecode enc'
            = Inr (filter (\<lambda>i. i < length (visIdxToPathElem g)) [0, 2, 100, 2]) \<longrightarrow>
          getVisible exampleDecode g (Some enc') = Inr r"
    have r': "getVisible exampleDecode g (Some ''known'') = Inr r"
      using same [rule_format, OF dec'] .
    have "map key (visible.vertices r) = [''B::get'', ''A''] \<and>
          edges r = [\<lparr>from' = ''A'', to' = ''B::get''\<rparr>]"
      using example_visible by (simp add: run g r)
    then show ?thesis
      using run g len dec r r' dv de by (intro exI [of _ m] exI [of _ g] exI [of _ r]) simp
  qed
qed

section \<open>A query with two consecutive spaces\<close>

text \<open>
  C10. When \<^const>\<open>getVisible\<close> returns for a graph model and a \<^verbatim>\<open>visEncoding\<close>, and the query is not
  empty and has two consecutive spaces in its trimmed form, the array that \<^verbatim>\<open>split(' ')\<close>
  makes of the trimmed query in lower case has an empty string among its entries, the empty
  string is included in every string, and \<^const>\<open>getVisibleUiFindMatches\<close> returns all the
  vertices that \<^const>\<open>getVisible\<close> returns, each once, whatever the other words of the query are.
\<close>

theorem getVisibleUiFindMatches_double_space:
  assumes "getVisible decode0 g visEncoding = Inr r"
    and "uiFind \<noteq> []"
    and "trim uiFind = a @ ''  '' @ b"
  shows "[] \<in> set (split CHR '' '' (toLowerCase (trim uiFind))) \<and>
    (\<forall>s. includes' s []) \<and>
    getVisibleUiFindMatches decode0 g (Some uiFind) visEncoding = Inr (visible.vertices r) \<and>
    distinct (visible.vertices r)"
proof -
  let ?arr = "split CHR '' '' (toLowerCase (trim uiFind))"
  have "toLowerCase (trim uiFind) = toLowerCase a @ CHR '' '' # CHR '' '' # toLowerCase b"
    by (simp add: assms(3) toLowerCase_def toLowerChar_space)
  then have "[] \<in> set (tl ?arr)" by (simp only: split_has_empty)
  then have emp: "[] \<in> set ?arr" by (cases ?arr) auto
  then have all: "\<forall>v \<in> set (visible.vertices r). uiFindMatches ?arr v"
    by (simp add: uiFindMatches_empty_token)
  have dv: "distinct (visible.vertices r)" by (rule getVisible_distinct [OF assms(1)])
  then have d: "distinct ([] @ visible.vertices r)" by simp
  have res: "getVisibleUiFindMatches decode0 g (Some uiFind) visEncoding = Inr (visible.vertices r)"
    using foldl_setAdd_all [OF d all] assms(1,2)
    by (simp add: getVisibleUiFindMatches_def Let_def)
  have inc: "\<forall>s. includes' s []" by (simp add: includes'_empty)
  show ?thesis by (intro conjI emp inc res dv)
qed

theorem getVisibleUiFindMatches_double_space_witness:
  "\<exists>m g r. transformDdgData examplePayload ''B'' None = Inr m \<and>
     newGraphModel mostConcise Pair (arrayModel m) MostConcise False = Inr g \<and>
     getVisible exampleDecode g (Some ''some'') = Inr r \<and>
     map key (visible.vertices r) = [''B::get'', ''A''] \<and>
     getVisibleUiFindMatches exampleDecode g (Some ''x  y'') (Some ''some'')
       = Inr (visible.vertices r) \<and>
     map_sum id (map key) (getVisibleUiFindMatches exampleDecode g (Some ''x y'') (Some ''some''))
       = Inr []"
proof -
  from example_graph_ex obtain m g where
    run: "transformDdgData examplePayload ''B'' None = Inr m"
    and g: "newGraphModel mostConcise Pair (arrayModel m) MostConcise False = Inr g"
    by blast
  have v: "map_sum id (\<lambda>r. (map key (visible.vertices r), edges r))
             (getVisible exampleDecode g (Some ''some''))
           = Inr ([''B::get'', ''A''], [\<lparr>from' = ''A'', to' = ''B::get''\<rparr>])"
    using example_visible by (simp add: run g)
  then obtain r where r: "getVisible exampleDecode g (Some ''some'') = Inr r"
    by (cases "getVisible exampleDecode g (Some ''some'')") simp_all
  have k: "map key (visible.vertices r) = [''B::get'', ''A'']" using v by (simp add: r)
  have ne: "''x  y'' \<noteq> []" by simp
  have f: "getVisibleUiFindMatches exampleDecode g (Some ''x  y'') (Some ''some'')
       = Inr (visible.vertices r)"
    using getVisibleUiFindMatches_double_space [OF r ne example_trim]
    by (elim conjE)
  have one: "map_sum id (map key)
      (getVisibleUiFindMatches exampleDecode g (Some ''x y'') (Some ''some'')) = Inr []"
    using example_find by (simp add: run g)
  show ?thesis by (intro exI [of _ m] exI [of _ g] exI [of _ r] conjI run g r k f one)
qed

section \<open>The round trip of the visibility codec\<close>

declare showNat.simps [simp del]

lemma digitVal_digit: "d < 10 \<Longrightarrow> digitVal (digitChars ! d) = Some d"
proof -
  assume "d < 10"
  then have "d = 0 \<or> d = 1 \<or> d = 2 \<or> d = 3 \<or> d = 4 \<or> d = 5 \<or> d = 6 \<or> d = 7 \<or> d = 8 \<or> d = 9"
    by arith
  moreover have "\<forall>k \<in> set [0 ..< 10]. digitVal (digitChars ! k) = Some k" by code_simp
  ultimately show ?thesis by auto
qed

lemma digit_not_comma: "d < 10 \<Longrightarrow> digitChars ! d \<noteq> CHR '',''"
proof -
  assume "d < 10"
  then have "d = 0 \<or> d = 1 \<or> d = 2 \<or> d = 3 \<or> d = 4 \<or> d = 5 \<or> d = 6 \<or> d = 7 \<or> d = 8 \<or> d = 9"
    by arith
  moreover have "\<forall>k \<in> set [0 ..< 10]. digitChars ! k \<noteq> CHR '',''" by code_simp
  ultimately show ?thesis by auto
qed

lemma parseDigits_append:
  "parseDigits acc (xs @ ys)
     = (case parseDigits acc xs of None \<Rightarrow> None | Some a \<Rightarrow> parseDigits a ys)"
  by (induction xs arbitrary: acc) (simp_all split: option.split)

lemma parseDigits_showNat: "parseDigits 0 (showNat n) = Some n"
proof (induction n rule: showNat.induct)
  case (1 n)
  show ?case
  proof (cases "n < 10")
    case True
    then show ?thesis by (subst showNat.simps) (simp add: digitVal_digit)
  next
    case False
    have "parseDigits 0 (showNat n)
            = parseDigits 0 (showNat (n div 10) @ [digitChars ! (n mod 10)])"
      using False by (subst showNat.simps) simp
    also have "\<dots> = parseDigits (n div 10) [digitChars ! (n mod 10)]"
      using 1 [OF False] by (simp add: parseDigits_append)
    also have "\<dots> = Some (10 * (n div 10) + n mod 10)"
      by (simp add: digitVal_digit)
    finally show ?thesis by simp
  qed
qed

lemma showNat_nonempty: "showNat n \<noteq> []"
  by (subst showNat.simps) simp

lemma showNat_no_comma: "CHR '','' \<notin> set (showNat n)"
proof (induction n rule: showNat.induct)
  case (1 n)
  show ?case
  proof (cases "n < 10")
    case True
    then show ?thesis using digit_not_comma [of n] by (subst showNat.simps) auto
  next
    case False
    have "n mod 10 < 10" by simp
    then show ?thesis using False 1 [OF False] digit_not_comma [of "n mod 10"]
      by (subst showNat.simps) auto
  qed
qed

lemma parseNat_showNat: "parseNat (showNat n) = Some n"
  by (simp add: parseNat_def showNat_nonempty parseDigits_showNat)

lemma split_without_sep: "sep \<notin> set p \<Longrightarrow> split sep p = [p]"
  by (induction p) auto

lemma split_nonempty: "split sep s \<noteq> []"
  by (induction s) (auto split: list.split)

lemma split_append_sep: "sep \<notin> set p \<Longrightarrow> split sep (p @ sep # rest) = p # split sep rest"
proof (induction p)
  case Nil
  show ?case by simp
next
  case (Cons c p)
  then show ?case by (cases "split sep rest") auto
qed

lemma split_join:
  "ps \<noteq> [] \<Longrightarrow> \<forall>p \<in> set ps. sep \<notin> set p \<Longrightarrow> split sep (join [sep] ps) = ps"
proof (induction "[sep]" ps rule: join.induct)
  case 1
  then show ?case by simp
next
  case (2 x)
  then show ?case by (simp add: split_without_sep)
next
  case (3 x y ys)
  then show ?case by (simp add: split_append_sep)
qed

lemma join_nonempty: "ps \<noteq> [] \<Longrightarrow> \<forall>p \<in> set ps. p \<noteq> [] \<Longrightarrow> join sep ps \<noteq> []"
  by (induction sep ps rule: join.induct) simp_all

lemma those_map_Some_id: "those (map Some xs) = Some xs"
  by (induction xs) simp_all

lemma sums_deltas: "sorted (p # xs) \<Longrightarrow> sums p (deltas p xs) = xs"
  by (induction xs arbitrary: p) simp_all

lemma deltas_positive: "sorted (p # xs) \<Longrightarrow> distinct (p # xs) \<Longrightarrow> 0 \<notin> set (deltas p xs)"
proof (induction xs arbitrary: p)
  case Nil
  show ?case by simp
next
  case (Cons x xs)
  have "p < x" using Cons.prems by (simp add: le_neq_implies_less)
  moreover have "0 \<notin> set (deltas x xs)" using Cons.prems by (intro Cons.IH) simp_all
  ultimately show ?case by simp
qed

lemma length_deltas: "length (deltas p xs) = length xs"
  by (induction xs arbitrary: p) simp_all

lemma decode_encode_list:
  assumes "sorted xs" and "distinct xs"
  shows "decode (join '','' (map showNat (deltas 0 xs))) = Inr xs"
proof (cases xs)
  case Nil
  then show ?thesis by (simp add: decode_def)
next
  case (Cons x xs')
  let ?ds = "deltas 0 xs"
  let ?ps = "map showNat ?ds"
  have ne: "?ps \<noteq> []" using Cons by simp
  have tok: "join '','' ?ps \<noteq> []"
    by (rule join_nonempty [OF ne]) (simp add: showNat_nonempty)
  have sp: "split CHR '','' (join '','' ?ps) = ?ps"
    by (rule split_join [OF ne]) (simp add: showNat_no_comma)
  have "map parseNat ?ps = map Some ?ds" by (simp add: parseNat_showNat)
  then have th: "those (map parseNat ?ps) = Some ?ds" by (simp only: those_map_Some_id)
  have tl: "tl ?ds = deltas x xs'" using Cons by simp
  have pos: "0 \<notin> set (tl ?ds)"
    unfolding tl using assms Cons by (intro deltas_positive) simp_all
  have "sorted (0 # xs)" using assms(1) by simp
  then have sm: "sums 0 ?ds = xs" by (rule sums_deltas)
  show ?thesis
    unfolding decode_def sp th using tok pos sm by simp
qed

text \<open>
  C4. For every finite set \<open>S\<close> of natural numbers, \<^const>\<open>decode\<close> of the token \<^const>\<open>encode\<close> \<open>S\<close>
  does not fail and returns the members of \<open>S\<close>, in ascending order and each once, so that
  the set of the decoded indices is \<open>S\<close>; and the token of the empty set is the empty string,
  which decodes to no index.
\<close>

theorem decode_encode:
  assumes "finite S"
  shows "decode (encode S) = Inr (sorted_list_of_set S) \<and>
    map_sum id set (decode (encode S)) = Inr S \<and>
    encode {} = [] \<and> decode [] = Inr []"
proof -
  have d: "decode (encode S) = Inr (sorted_list_of_set S)"
    unfolding encode_def by (rule decode_encode_list) simp_all
  have s: "map_sum id set (decode (encode S)) = Inr S"
    using assms by (simp add: d)
  have e: "encode {} = []" by (simp add: encode_def)
  have z: "decode [] = Inr []" by (simp add: decode_def)
  show ?thesis by (intro conjI d s e z)
qed

lemma example_codec:
  "sorted_list_of_set {5, 0, 4 :: nat} = [0, 4, 5]"
  "encode {5, 0, 4} = ''0,4,1''"
  "encode {12, 100, 101} = ''12,88,1''"
  "decode ''12,88,1'' = Inr [12, 100, 101]"
  "decode ''0,,1'' = Inl MalformedVisibilityToken"
  "decode ''3,0'' = Inl MalformedVisibilityToken"
  "decode ''3,x'' = Inl MalformedVisibilityToken"
  by code_simp+

theorem decode_encode_witness:
  "encode {5, 0, 4} = ''0,4,1'' \<and>
   decode ''0,4,1'' = Inr [0, 4, 5] \<and>
   map_sum id set (decode (encode {5, 0, 4})) = Inr {5, 0, 4} \<and>
   encode {} = []"
proof -
  have f: "finite {5, 0, 4 :: nat}" by simp
  note t = decode_encode [OF f]
  have "decode ''0,4,1'' = Inr [0, 4, 5]"
    using t [THEN conjunct1] by (simp only: example_codec)
  then show ?thesis
    using t [THEN conjunct2, THEN conjunct1] t [THEN conjunct2, THEN conjunct2, THEN conjunct1]
    by (intro conjI example_codec)
qed


end
